theory Spec2Isabelle
  imports Complex_Main "HOL-Library.Word"
begin

section \<open>palette.cpp: finding a colour palette in pictures\<close>

text \<open>
  The program reads a settings file into the global \<open>init_values\<close>, clusters the colours
  of each picture, builds a palette strip from the sorted cluster centres, correlates the
  picture with the strip and marks the places whose score reaches the threshold.

  Conventions of this development.
  \<^item> A C++ \<open>int\<close> is an \<^typ>\<open>int\<close> between \<open>- 2 ^ 31\<close> and \<open>2 ^ 31 - 1\<close>. The product
    \<open>color_h * colors\<close> of \<open>setwin\<close> and the sum \<open>max + 1\<close> and the counts of \<open>bincount\<close>
    can leave that range; there the result wraps around, as it does when the program runs
    (\<open>wrap_int\<close>). The other operations on \<open>int\<close> (\<open>n_clusters - 1\<close>, the loop counters,
    \<open>unique - temp\<close>, \<open>pt.x + win.x\<close>) are written as exact.
  \<^item> \<open>size_t\<close> is \<^typ>\<open>64 word\<close>; the conversion of an \<open>int\<close> to \<open>size_t\<close> is
    \<^term>\<open>word_of_int\<close>, which wraps a negative value around.
  \<^item> A \<open>float\<close> or \<open>double\<close> is a \<^typ>\<open>real\<close>. The program never computes with them:
    it copies them, sorts them and compares them (a \<open>float\<close> is promoted to \<open>double\<close>
    exactly). NaN is not represented.
  \<^item> Every exception, failed assertion and out-of-range access is a value of
    \<open>error\<close>, returned as \<open>Inl\<close>.
\<close>

datatype error =
    InvalidArgument  \<comment> \<open>\<open>std::invalid_argument\<close> of \<open>stoi\<close>, \<open>stod\<close>\<close>
  | OutOfRange       \<comment> \<open>\<open>std::out_of_range\<close> of \<open>stoi\<close>, \<open>stod\<close>\<close>
  | OutOfBounds      \<comment> \<open>an element access outside a matrix or a vector\<close>
  | BadSize          \<comment> \<open>a matrix or vector created with a negative size\<close>
  | SizeMismatch     \<comment> \<open>the size assertion of \<open>vconcat\<close>, \<open>hconcat\<close>\<close>
  | EmptyRange       \<comment> \<open>dereferencing \<open>max_element\<close> of an empty range\<close>

text \<open>
  The value an \<open>int\<close> operation leaves when its exact result is \<open>v\<close>: the one number of
  the range of \<open>int\<close> that differs from \<open>v\<close> by a multiple of \<open>2 ^ 32\<close>.
\<close>

definition wrap_int :: "int \<Rightarrow> int" where
  "wrap_int v = (v + 2 ^ 31) mod 2 ^ 32 - 2 ^ 31"

subsection \<open>The settings\<close>

text \<open>
  The global \<open>init_values\<close>. It has static storage, so \<open>colors\<close>, which has no
  initialiser, starts at 0. \<open>threshold\<close> starts at the \<open>double\<close> written \<open>0.99\<close>.
\<close>

record settings =
  n_clusters :: int
  resize :: int
  win_w :: int
  win_h :: int
  color_w :: int
  color_h :: int
  colors :: int
  path :: string
  threshold :: real
  vertical :: bool
  reverse :: bool

definition init_values :: settings where
  "init_values =
     \<lparr>n_clusters = 6, resize = 120, win_w = 512, win_h = 512, color_w = 128,
      color_h = 139, colors = 0, path = ''../dataset/'', threshold = 0.99,
      vertical = True, reverse = True\<rparr>"

subsection \<open>The standard library: streams and number parsing\<close>

text \<open>
  An input file stream: the characters not yet read and two state bits. A file that
  cannot be opened gives a stream with \<open>failbit\<close> set.
\<close>

record istream =
  buf :: string
  eofbit :: bool
  failbit :: bool

definition ifstream :: "string option \<Rightarrow> istream" where
  "ifstream file =
     (case file of
        None \<Rightarrow> \<lparr>buf = [], eofbit = False, failbit = True\<rparr>
      | Some s \<Rightarrow> \<lparr>buf = s, eofbit = False, failbit = False\<rparr>)"

text \<open>
  \<open>getline(stream, str)\<close>. On a stream that is not good the string is left as it was
  and \<open>failbit\<close> is set. Otherwise the string is cleared and characters are moved to it
  up to a newline, which is dropped, or up to the end of the file, which sets
  \<open>eofbit\<close>, and \<open>failbit\<close> too when nothing at all was extracted.
\<close>

definition getline :: "istream \<Rightarrow> string \<Rightarrow> istream \<times> string" where
  "getline s str =
     (if eofbit s \<or> failbit s then (s\<lparr>failbit := True\<rparr>, str)
      else
        (let line = takeWhile (\<lambda>c. c \<noteq> CHR 0x0A) (buf s);
             rest = dropWhile (\<lambda>c. c \<noteq> CHR 0x0A) (buf s)
         in case rest of
              [] \<Rightarrow> (s\<lparr>buf := [], eofbit := True, failbit := (line = [])\<rparr>, line)
            | _ # rest' \<Rightarrow> (s\<lparr>buf := rest'\<rparr>, line)))"

text \<open>
  \<open>stoi(str)\<close> is \<open>strtol\<close> in base 10: white space is skipped, then an optional
  sign and the longest run of digits are read; what follows is ignored. No digit is
  \<open>invalid_argument\<close>, a value that does not fit an \<open>int\<close> is \<open>out_of_range\<close>.
\<close>

definition isspace :: "char \<Rightarrow> bool" where
  "isspace c = (c = CHR 0x20 \<or> c = CHR 0x09 \<or> c = CHR 0x0A \<or> c = CHR 0x0B \<or>
                c = CHR 0x0C \<or> c = CHR 0x0D)"

definition isdigit :: "char \<Rightarrow> bool" where
  "isdigit c = (48 \<le> (of_char c :: nat) \<and> (of_char c :: nat) \<le> 57)"

fun digits_value :: "int \<Rightarrow> string \<Rightarrow> int" where
  "digits_value acc [] = acc"
| "digits_value acc (c # cs) = digits_value (acc * 10 + (of_char c - 48)) cs"

definition stoi :: "string \<Rightarrow> error + int" where
  "stoi str =
     (let s = dropWhile isspace str;
          neg = (case s of [] \<Rightarrow> False | c # _ \<Rightarrow> c = CHR ''-'');
          s' = (case s of [] \<Rightarrow> [] | c # cs \<Rightarrow> if c = CHR ''-'' \<or> c = CHR ''+'' then cs else s);
          ds = takeWhile isdigit s';
          v = (if neg then - digits_value 0 ds else digits_value 0 ds)
      in if ds = [] then Inl InvalidArgument
         else if v < - (2 ^ 31) \<or> 2 ^ 31 \<le> v then Inl OutOfRange
         else Inr v)"

subsection \<open>read\_settings\<close>

text \<open>
  \<^verbatim>\<open>
  void read_settings(void) {
    string setting;
    try{
        ifstream Settings("../settings.txt");
        getline(Settings, setting);
        init_values.n_clusters = stoi(setting);
        ... resize, win_w, win_h, color_w, color_h likewise ...
        getline(Settings, setting);
        init_values.path = setting;
        getline(Settings, setting);
        init_values.threshold = stod(setting);
        getline(Settings, setting);
        init_values.vertical = stoi(setting)==1;
        getline(Settings, setting);
        init_values.reverse = stoi(setting)==1;
        Settings.close();
    }
    catch(const exception&){
        cout << "Error reading the settings file!" << endl;
    }
  }
  \<close>
  The state inside the \<open>try\<close> block is the stream, the local \<open>setting\<close> and the global.
  Each of the ten statements groups is a step on that state; the block runs them in order
  and the first exception leaves the block with the global as it is by then. The function
  returns the global and whether the handler ran, that is, whether
  \<open>Error reading the settings file!\<close> was printed. The other output is not modelled.
  \<open>stod\<close> is a parameter: parsing a decimal into a \<open>double\<close> rounds.
\<close>

type_synonym rs_state = "istream \<times> string \<times> settings"

definition read_int :: "(int \<Rightarrow> settings \<Rightarrow> settings) \<Rightarrow> rs_state \<Rightarrow> error + rs_state" where
  "read_int assign st =
     (case st of (s, setting, cfg) \<Rightarrow>
        (case getline s setting of (s', setting') \<Rightarrow>
           (case stoi setting' of
              Inl e \<Rightarrow> Inl e
            | Inr v \<Rightarrow> Inr (s', setting', assign v cfg))))"

definition read_string :: "(string \<Rightarrow> settings \<Rightarrow> settings) \<Rightarrow> rs_state \<Rightarrow> error + rs_state" where
  "read_string assign st =
     (case st of (s, setting, cfg) \<Rightarrow>
        (case getline s setting of (s', setting') \<Rightarrow> Inr (s', setting', assign setting' cfg)))"

definition read_double ::
  "(string \<Rightarrow> error + real) \<Rightarrow> (real \<Rightarrow> settings \<Rightarrow> settings) \<Rightarrow> rs_state \<Rightarrow> error + rs_state" where
  "read_double stod assign st =
     (case st of (s, setting, cfg) \<Rightarrow>
        (case getline s setting of (s', setting') \<Rightarrow>
           (case stod setting' of
              Inl e \<Rightarrow> Inl e
            | Inr v \<Rightarrow> Inr (s', setting', assign v cfg))))"

fun try_block :: "(rs_state \<Rightarrow> error + rs_state) list \<Rightarrow> rs_state \<Rightarrow> settings \<times> bool" where
  "try_block [] st = (snd (snd st), False)"
| "try_block (f # fs) st =
     (case f st of
        Inl e \<Rightarrow> (snd (snd st), True)
      | Inr st' \<Rightarrow> try_block fs st')"

definition settings_steps :: "(string \<Rightarrow> error + real) \<Rightarrow> (rs_state \<Rightarrow> error + rs_state) list" where
  "settings_steps stod =
     [read_int (\<lambda>v cfg. cfg\<lparr>n_clusters := v\<rparr>),
      read_int (\<lambda>v cfg. cfg\<lparr>resize := v\<rparr>),
      read_int (\<lambda>v cfg. cfg\<lparr>win_w := v\<rparr>),
      read_int (\<lambda>v cfg. cfg\<lparr>win_h := v\<rparr>),
      read_int (\<lambda>v cfg. cfg\<lparr>color_w := v\<rparr>),
      read_int (\<lambda>v cfg. cfg\<lparr>color_h := v\<rparr>),
      read_string (\<lambda>v cfg. cfg\<lparr>path := v\<rparr>),
      read_double stod (\<lambda>v cfg. cfg\<lparr>threshold := v\<rparr>),
      read_int (\<lambda>v cfg. cfg\<lparr>vertical := (v = 1)\<rparr>),
      read_int (\<lambda>v cfg. cfg\<lparr>reverse := (v = 1)\<rparr>)]"

definition read_settings ::
  "(string \<Rightarrow> error + real) \<Rightarrow> string option \<Rightarrow> settings \<Rightarrow> settings \<times> bool" where
  "read_settings stod file cfg = try_block (settings_steps stod) (ifstream file, [], cfg)"

subsection \<open>Matrices\<close>

text \<open>
  A \<open>cv::Mat\<close>: its numbers of rows and columns and its elements. A \<open>CV_32F\<close>
  matrix has \<^typ>\<open>real\<close> elements; the element of a \<open>CV_8UC3\<close> picture is written as the
  three channel values it was filled from (their storage as bytes is not modelled).
  \<open>m.at<float>(i, j)\<close> is \<open>mat_at\<close>; outside the matrix it is an invalid access.
\<close>

record 'a mat =
  rows :: int
  cols :: int
  elem :: "int \<Rightarrow> int \<Rightarrow> 'a"

type_synonym scalar = "real \<times> real \<times> real"
type_synonym image = "scalar mat"

definition mat_at :: "'a mat \<Rightarrow> int \<Rightarrow> int \<Rightarrow> error + 'a" where
  "mat_at m i j =
     (if 0 \<le> i \<and> i < rows m \<and> 0 \<le> j \<and> j < cols m then Inr (elem m i j)
      else Inl OutOfBounds)"

text \<open>\<open>Mat(rows, cols, CV_8UC3, Scalar(a, b, c))\<close>: every element is the given colour.\<close>

definition Mat_fill :: "int \<Rightarrow> int \<Rightarrow> scalar \<Rightarrow> error + image" where
  "Mat_fill r c s =
     (if r < 0 \<or> c < 0 then Inl BadSize
      else Inr \<lparr>rows = r, cols = c, elem = (\<lambda>i j. s)\<rparr>)"

text \<open>
  \<open>vconcat\<close> stacks matrices of one width from the top down, \<open>hconcat\<close> puts
  matrices of one height side by side; both give the empty matrix for no matrix at all.
\<close>

definition empty_mat :: image where
  "empty_mat = \<lparr>rows = 0, cols = 0, elem = (\<lambda>i j. (0, 0, 0))\<rparr>"

definition vstack :: "image \<Rightarrow> image \<Rightarrow> image" where
  "vstack a b =
     \<lparr>rows = rows a + rows b, cols = cols a,
      elem = (\<lambda>i j. if i < rows a then elem a i j else elem b (i - rows a) j)\<rparr>"

definition hstack :: "image \<Rightarrow> image \<Rightarrow> image" where
  "hstack a b =
     \<lparr>rows = rows a, cols = cols a + cols b,
      elem = (\<lambda>i j. if j < cols a then elem a i j else elem b i (j - cols a))\<rparr>"

definition vconcat :: "image list \<Rightarrow> error + image" where
  "vconcat src =
     (case src of
        [] \<Rightarrow> Inr empty_mat
      | m # ms \<Rightarrow>
          if list_all (\<lambda>k. cols k = cols m) ms then Inr (foldl vstack m ms)
          else Inl SizeMismatch)"

definition hconcat :: "image list \<Rightarrow> error + image" where
  "hconcat src =
     (case src of
        [] \<Rightarrow> Inr empty_mat
      | m # ms \<Rightarrow>
          if list_all (\<lambda>k. rows k = rows m) ms then Inr (foldl hstack m ms)
          else Inl SizeMismatch)"

text \<open>
  Modelled from the spec: \<open>cv::sort(centers, centers, SORT_EVERY_COLUMN | SORT_ASCENDING)\<close>
  is a function of OpenCV, not of this repository. The spec has it sort the centres
  independently within each of the three colour channels, ascending: column \<open>j\<close> of the
  result is column \<open>j\<close> of the argument, sorted.
\<close>

definition column :: "real mat \<Rightarrow> int \<Rightarrow> real list" where
  "column m j = map (\<lambda>k. elem m (int k) j) [0..<nat (rows m)]"

definition cv_sort :: "real mat \<Rightarrow> real mat" where
  "cv_sort m = \<lparr>rows = rows m, cols = cols m, elem = (\<lambda>i j. sort (column m j) ! nat i)\<rparr>"

subsection \<open>setwin and create\_palette\<close>

text \<open>
  \<^verbatim>\<open>
  Point setwin(void){
      Point win;
      if(init_values.vertical){
        win.x = init_values.color_w;
        win.y = init_values.color_h * init_values.colors;
      }else{
        win.y = init_values.color_w;
        win.x = init_values.color_h * init_values.colors;
      }
      return win;
  }
  \<close>
\<close>

record point =
  px :: int
  py :: int

definition setwin :: "settings \<Rightarrow> point" where
  "setwin cfg =
     (if vertical cfg
      then \<lparr>px = color_w cfg, py = wrap_int (color_h cfg * colors cfg)\<rparr>
      else \<lparr>px = wrap_int (color_h cfg * colors cfg), py = color_w cfg\<rparr>)"

text \<open>
  \<^verbatim>\<open>
  Mat create_palette(const bool& ver, const bool& rev, const Mat& centers) {
      vector<Mat> palette;
      Mat model;
      int x,y;
      if(ver){ x = init_values.color_h; y = init_values.color_w; }
      else   { y = init_values.color_h; x = init_values.color_w; }
      for (size_t cluster_idx = 0; cluster_idx < centers.rows-1; ++cluster_idx) {
          Mat cluster_mat(x, y, CV_8UC3,
              Scalar(centers.at<float>(cluster_idx,0),
                    centers.at<float>(cluster_idx,1),
                    centers.at<float>(cluster_idx,2)));
          palette.push_back(cluster_mat);
      }
      if(rev)reverse(palette.begin(), palette.end());
      if(ver)vconcat(palette, model);
      else hconcat(palette, model);
      return model;
  }
  \<close>
  The loop compares the \<open>size_t\<close> index with the \<open>int\<close> value \<open>centers.rows-1\<close>,
  which is converted to \<open>size_t\<close> for the comparison; \<open>at\<close> of the matrix takes \<open>int\<close> indices, so
  the index is converted back to \<open>int\<close> at each access.
\<close>

definition size_t_of_int :: "int \<Rightarrow> 64 word" where
  "size_t_of_int i = word_of_int i"

definition int_of_size_t :: "64 word \<Rightarrow> int" where
  "int_of_size_t w = sint (ucast w :: 32 word)"

function palette_loop ::
  "int \<Rightarrow> int \<Rightarrow> real mat \<Rightarrow> 64 word \<Rightarrow> image list \<Rightarrow> error + image list" where
  "palette_loop x y centers cluster_idx palette =
     (if cluster_idx < size_t_of_int (rows centers - 1)
      then
        (case mat_at centers (int_of_size_t cluster_idx) 0 of Inl e \<Rightarrow> Inl e | Inr c0 \<Rightarrow>
         case mat_at centers (int_of_size_t cluster_idx) 1 of Inl e \<Rightarrow> Inl e | Inr c1 \<Rightarrow>
         case mat_at centers (int_of_size_t cluster_idx) 2 of Inl e \<Rightarrow> Inl e | Inr c2 \<Rightarrow>
         case Mat_fill x y (c0, c1, c2) of Inl e \<Rightarrow> Inl e | Inr cluster_mat \<Rightarrow>
           palette_loop x y centers (cluster_idx + 1) (palette @ [cluster_mat]))
      else Inr palette)"
  by pat_completeness auto
termination
proof (relation "measure (\<lambda>(x, y, centers, cluster_idx, palette).
                   unat (size_t_of_int (rows centers - 1)) - unat cluster_idx)")
  show "wf (measure (\<lambda>(x, y, centers, cluster_idx, palette).
                   unat (size_t_of_int (rows centers - 1)) - unat cluster_idx))"
    by simp
next
  fix x y :: int and centers :: "real mat" and cluster_idx :: "64 word"
    and palette :: "image list" and cluster_mat :: image
  assume less: "cluster_idx < size_t_of_int (rows centers - 1)"
  then have below: "unat cluster_idx < unat (size_t_of_int (rows centers - 1))"
    by (simp add: word_less_nat_alt)
  have "unat (size_t_of_int (rows centers - 1)) < 2 ^ LENGTH(64)"
    by (rule unsigned_less)
  with below have "unat cluster_idx + unat (1 :: 64 word) < 2 ^ LENGTH(64)"
    by simp
  then have "unat (cluster_idx + 1) = unat cluster_idx + unat (1 :: 64 word)"
    by (simp only: unat_add_lem [THEN iffD1])
  with below
  show "((x, y, centers, cluster_idx + 1, palette @ [cluster_mat]),
         (x, y, centers, cluster_idx, palette))
        \<in> measure (\<lambda>(x, y, centers, cluster_idx, palette).
                   unat (size_t_of_int (rows centers - 1)) - unat cluster_idx)"
    by simp
qed

definition create_palette :: "settings \<Rightarrow> bool \<Rightarrow> bool \<Rightarrow> real mat \<Rightarrow> error + image" where
  "create_palette cfg ver rev_flag centers =
     (let x = (if ver then color_h cfg else color_w cfg);
          y = (if ver then color_w cfg else color_h cfg)
      in case palette_loop x y centers 0 [] of
           Inl e \<Rightarrow> Inl e
         | Inr palette \<Rightarrow>
             (let palette' = (if rev_flag then rev palette else palette)
              in if ver then vconcat palette' else hconcat palette'))"

subsection \<open>bincount\<close>

text \<open>
  \<^verbatim>\<open>
  vector<int> bincount(const vector<int>& labels) {
      int max_value = *max_element(labels.begin(), labels.end()) + 1;
      vector<int> counts(max_value, 0);
      for (int label : labels) { counts[label]++; }
      return counts;
  }
  \<close>
  \<open>max_element\<close> of an empty range returns the end iterator, which must not be
  dereferenced. \<open>max + 1\<close> is an \<open>int\<close> sum: at the largest \<open>int\<close> it wraps around to
  the smallest; so does a count that is incremented. A vector cannot be created with a negative size (the constructor throws
  \<open>length_error\<close>), and \<open>counts[label]\<close> outside the vector is an invalid access.
\<close>

fun max_element :: "int list \<Rightarrow> error + int" where
  "max_element [] = Inl EmptyRange"
| "max_element (l # ls) = Inr (foldl max l ls)"

fun count_labels :: "int list \<Rightarrow> int list \<Rightarrow> error + int list" where
  "count_labels counts [] = Inr counts"
| "count_labels counts (label # labels) =
     (if 0 \<le> label \<and> label < int (length counts)
      then count_labels (counts[nat label := wrap_int (counts ! nat label + 1)]) labels
      else Inl OutOfBounds)"

definition bincount :: "int list \<Rightarrow> error + int list" where
  "bincount labels =
     (case max_element labels of
        Inl e \<Rightarrow> Inl e
      | Inr m \<Rightarrow>
          (let max_value = wrap_int (m + 1) in
           if max_value < 0 then Inl BadSize
           else count_labels (replicate (nat max_value) 0) labels))"

subsection \<open>main\<close>

text \<open>
  The threshold scan of the correlation surface:
  \<^verbatim>\<open>
  std::vector<Point> loc;
  for (int row = 0; row < res.rows; ++row) {
    for (int col = 0; col < res.cols; ++col) {
      if (res.at<float>(row, col) >= init_values.threshold) {
        loc.push_back(Point(col, row));
      }
    }
  }
  \<close>
\<close>

function scan_cols :: "real \<Rightarrow> real mat \<Rightarrow> int \<Rightarrow> int \<Rightarrow> point list \<Rightarrow> error + point list" where
  "scan_cols thr res row col loc =
     (if col < cols res
      then
        (case mat_at res row col of
           Inl e \<Rightarrow> Inl e
         | Inr v \<Rightarrow>
             scan_cols thr res row (col + 1)
               (if v \<ge> thr then loc @ [\<lparr>px = col, py = row\<rparr>] else loc))
      else Inr loc)"
  by pat_completeness auto
termination
  by (relation "measure (\<lambda>(thr, res, row, col, loc). nat (cols res - col))") auto

function scan_rows :: "real \<Rightarrow> real mat \<Rightarrow> int \<Rightarrow> point list \<Rightarrow> error + point list" where
  "scan_rows thr res row loc =
     (if row < rows res
      then
        (case scan_cols thr res row 0 loc of
           Inl e \<Rightarrow> Inl e
         | Inr loc' \<Rightarrow> scan_rows thr res (row + 1) loc')
      else Inr loc)"
  by pat_completeness auto
termination
  by (relation "measure (\<lambda>(thr, res, row, loc). nat (rows res - row))") auto

text \<open>
  The marking of the places found:
  \<^verbatim>\<open>
  if(init_values.reverse)reverse(loc.begin(), loc.end());
  int unique, temp = 0;
  for (const Point& pt : loc) {
    if(init_values.vertical)unique=pt.x;
    else unique=pt.y;
    if (abs(unique - temp) > 7) {
      rectangle(image, Point(pt.x,pt.y), Point(pt.x + win.x, pt.y + win.y), ...);
      std::string text = "Palette: " + std::to_string(pt.x + win.x) + ", "
                                     + std::to_string(pt.y + win.y);
      putText(image, text, Point(pt.x,pt.y+win.y+70), ...);
      temp = unique;
    }
  }
  if(temp==0)cout << "Palette not found!" << endl;
  \<close>
  What is drawn on the picture is kept as a list of marks, in the order of drawing: the
  two corners of the rectangle and the origin of the text, which spells the second corner.
\<close>

record mark =
  rect_tl :: point
  rect_br :: point
  text_org :: point

definition draw :: "point \<Rightarrow> point \<Rightarrow> mark" where
  "draw pt win =
     \<lparr>rect_tl = \<lparr>px = px pt, py = py pt\<rparr>,
      rect_br = \<lparr>px = px pt + px win, py = py pt + py win\<rparr>,
      text_org = \<lparr>px = px pt, py = py pt + py win + 70\<rparr>\<rparr>"

definition unique_of :: "bool \<Rightarrow> point \<Rightarrow> int" where
  "unique_of ver pt = (if ver then px pt else py pt)"

fun mark_loop :: "bool \<Rightarrow> point \<Rightarrow> point list \<Rightarrow> int \<Rightarrow> mark list \<Rightarrow> int \<times> mark list" where
  "mark_loop ver win [] temp marks = (temp, marks)"
| "mark_loop ver win (pt # loc) temp marks =
     (let unique = unique_of ver pt
      in if \<bar>unique - temp\<bar> > 7
         then mark_loop ver win loc unique (marks @ [draw pt win])
         else mark_loop ver win loc temp marks)"

definition traversal :: "settings \<Rightarrow> point list \<Rightarrow> point list" where
  "traversal cfg loc = (if reverse cfg then rev loc else loc)"

text \<open>
  \<open>mark_palettes\<close> is the whole fragment: the marks drawn and whether
  \<open>Palette not found!\<close> was printed.
\<close>

definition mark_palettes :: "settings \<Rightarrow> point \<Rightarrow> point list \<Rightarrow> mark list \<times> bool" where
  "mark_palettes cfg win loc =
     (case mark_loop (vertical cfg) win (traversal cfg loc) 0 [] of
        (temp, marks) \<Rightarrow> (marks, temp = 0))"

text \<open>
  The body of the loop over the pictures. What OpenCV computes from the pixels of a
  picture is given with the picture: whether \<open>imread\<close> could read it, the centres and
  labels \<open>kmeans\<close> finds for a sample size and a number of clusters, and the surface
  \<open>matchTemplate\<close> gives for a strip. The body reads the global and never writes it;
  it returns it with what it made of the picture.
\<close>

record picture =
  readable :: bool
  kmeans :: "int \<Rightarrow> int \<Rightarrow> real mat \<times> int list"
  matchTemplate :: "image \<Rightarrow> real mat"

record outcome =
  strip :: image
  cluster_sizes :: "int list"
  marks_drawn :: "mark list"
  not_found :: bool

definition process_image :: "settings \<Rightarrow> point \<Rightarrow> picture \<Rightarrow> error + settings \<times> outcome" where
  "process_image cfg win pic =
     (case kmeans pic (resize cfg) (n_clusters cfg) of (centers0, labels) \<Rightarrow>
        (let centers = cv_sort centers0 in
         case bincount labels of Inl e \<Rightarrow> Inl e | Inr sizes \<Rightarrow>
         case create_palette cfg (vertical cfg) (reverse cfg) centers of
           Inl e \<Rightarrow> Inl e
         | Inr model \<Rightarrow>
         case scan_rows (threshold cfg) (matchTemplate pic model) 0 [] of
           Inl e \<Rightarrow> Inl e
         | Inr loc \<Rightarrow>
         case mark_palettes cfg win loc of (marks, nf) \<Rightarrow>
           Inr (cfg, \<lparr>strip = model, cluster_sizes = sizes, marks_drawn = marks,
                      not_found = nf\<rparr>)))"

text \<open>
  \<^verbatim>\<open>
  int main(int argc, char* argv[]) {
      read_settings();
      init_values.colors = init_values.n_clusters - 1;
      if (argc > 1) { init_values.path = argv[1]; }
      Point win = setwin();
      for (const auto & entry : fs::directory_iterator(init_values.path)) {
          Mat image = imread(entry.path(), IMREAD_COLOR);
          if(image.empty()) { return 1; }
          ...
      }
      return 0;
  }
  \<close>
  \<open>main\<close> returns the exit status, the global at the end and the outcome of each picture.
\<close>

definition main_init :: "(string \<Rightarrow> error + real) \<Rightarrow> string option \<Rightarrow> string list \<Rightarrow> settings" where
  "main_init stod file argv =
     (let cfg = fst (read_settings stod file init_values);
          cfg = cfg\<lparr>colors := n_clusters cfg - 1\<rparr>
      in if length argv > 1 then cfg\<lparr>path := argv ! 1\<rparr> else cfg)"

fun main_loop ::
  "settings \<Rightarrow> point \<Rightarrow> picture list \<Rightarrow> outcome list \<Rightarrow> error + int \<times> settings \<times> outcome list" where
  "main_loop cfg win [] outs = Inr (0, cfg, outs)"
| "main_loop cfg win (pic # pics) outs =
     (if \<not> readable pic then Inr (1, cfg, outs)
      else
        (case process_image cfg win pic of
           Inl e \<Rightarrow> Inl e
         | Inr (cfg', out) \<Rightarrow> main_loop cfg' win pics (outs @ [out])))"

definition main ::
  "(string \<Rightarrow> error + real) \<Rightarrow> string option \<Rightarrow> string list \<Rightarrow> picture list
     \<Rightarrow> error + int \<times> settings \<times> outcome list" where
  "main stod file argv pics =
     (let cfg = main_init stod file argv; win = setwin cfg in main_loop cfg win pics [])"

text \<open>
  The equations of the three loops defined by general recursion rewrite a loop into itself;
  they are unfolded one step at a time, by hand.
\<close>

declare palette_loop.simps [simp del] scan_cols.simps [simp del] scan_rows.simps [simp del]

subsection \<open>Vocabulary of the proofs\<close>

text \<open>
  \<open>row_hits\<close> lists the places of one row of the surface, from a column on, whose score
  reaches the threshold. \<open>chained\<close> and \<open>started\<close> are the two invariants of
  the marking loop: each mark lies more than 7 from the one drawn before it, which
  \<open>temp\<close> remembers; and \<open>temp\<close> is 0 until the first mark, which lies beyond 7.
  \<open>cluster_mat x y centers i\<close> is the cell \<open>create_palette\<close> makes for row \<open>i\<close> of the
  centres: \<open>x\<close> rows and \<open>y\<close> columns of the colour in that row.
  \<open>kept_from k cfg\<close> says that the settings read \<open>k\<close>-th and later, counting from 0 in
  the order of \<open>read_settings\<close>, have the values \<open>init_values\<close> starts with.
  \<open>run_steps\<close> runs statements of the \<open>try\<close> block one after the other, without the
  handler.
\<close>

definition row_hits :: "real \<Rightarrow> real mat \<Rightarrow> int \<Rightarrow> int \<Rightarrow> point list" where
  "row_hits thr res row col =
     map (\<lambda>c. \<lparr>px = c, py = row\<rparr>) (filter (\<lambda>c. elem res row c \<ge> thr) [col..cols res - 1])"

definition apart :: "int \<Rightarrow> int \<Rightarrow> bool" where
  "apart a b = (7 < \<bar>b - a\<bar>)"

definition chained :: "bool \<Rightarrow> int \<Rightarrow> mark list \<Rightarrow> bool" where
  "chained ver temp ms =
     (successively apart (map (\<lambda>m. unique_of ver (rect_tl m)) ms) \<and>
      (ms \<noteq> [] \<longrightarrow> temp = unique_of ver (rect_tl (last ms))))"

definition started :: "bool \<Rightarrow> int \<Rightarrow> mark list \<Rightarrow> bool" where
  "started ver temp ms =
     ((ms = [] \<longrightarrow> temp = 0) \<and> (ms \<noteq> [] \<longrightarrow> 7 < unique_of ver (rect_tl (hd ms))))"

definition cluster_mat :: "int \<Rightarrow> int \<Rightarrow> real mat \<Rightarrow> int \<Rightarrow> image" where
  "cluster_mat x y centers i =
     \<lparr>rows = x, cols = y, elem = (\<lambda>r c. (elem centers i 0, elem centers i 1, elem centers i 2))\<rparr>"

definition kept_from :: "nat \<Rightarrow> settings \<Rightarrow> bool" where
  "kept_from k cfg =
     ((k \<le> 0 \<longrightarrow> n_clusters cfg = 6) \<and>
      (k \<le> 1 \<longrightarrow> resize cfg = 120) \<and>
      (k \<le> 2 \<longrightarrow> win_w cfg = 512) \<and>
      (k \<le> 3 \<longrightarrow> win_h cfg = 512) \<and>
      (k \<le> 4 \<longrightarrow> color_w cfg = 128) \<and>
      (k \<le> 5 \<longrightarrow> color_h cfg = 139) \<and>
      (k \<le> 6 \<longrightarrow> path cfg = ''../dataset/'') \<and>
      (k \<le> 7 \<longrightarrow> threshold cfg = 0.99) \<and>
      (k \<le> 8 \<longrightarrow> vertical cfg = True) \<and>
      (k \<le> 9 \<longrightarrow> reverse cfg = True))"

fun run_steps :: "(rs_state \<Rightarrow> error + rs_state) list \<Rightarrow> rs_state \<Rightarrow> error + rs_state" where
  "run_steps [] st = Inr st"
| "run_steps (f # fs) st = (case f st of Inl e \<Rightarrow> Inl e | Inr st' \<Rightarrow> run_steps fs st')"

subsection \<open>Properties of wrap\_int\<close>

lemma wrap_int_id: "- (2 ^ 31) \<le> v \<Longrightarrow> v < 2 ^ 31 \<Longrightarrow> wrap_int v = v"
  by (simp add: wrap_int_def)

subsection \<open>Properties of read\_settings\<close>

lemma try_block_fails:
  "try_block fs st = (cfg, True) \<Longrightarrow>
   \<exists>k<length fs. \<exists>st'. run_steps (take k fs) st = Inr st' \<and> (\<exists>e. (fs ! k) st' = Inl e) \<and>
      cfg = snd (snd st')"
proof (induction fs arbitrary: st)
  case Nil
  then show ?case by simp
next
  case (Cons f fs)
  show ?case
  proof (cases "f st")
    case (Inl e)
    with Cons.prems have "cfg = snd (snd st)"
      by simp
    with Inl have "run_steps (take 0 (f # fs)) st = Inr st \<and> (\<exists>e. ((f # fs) ! 0) st = Inl e) \<and>
      cfg = snd (snd st)"
      by simp
    then show ?thesis
      by (intro exI [of _ 0] exI [of _ st]) simp
  next
    case (Inr s)
    with Cons.prems have "try_block fs s = (cfg, True)"
      by simp
    from Cons.IH [OF this] obtain k st' where k: "k < length fs"
      and run: "run_steps (take k fs) s = Inr st'" and fail: "\<exists>e. (fs ! k) st' = Inl e"
      and cfg: "cfg = snd (snd st')"
      by blast
    from Inr run have "run_steps (take (Suc k) (f # fs)) st = Inr st'"
      by simp
    with k fail cfg show ?thesis
      by (intro exI [of _ "Suc k"] exI [of _ st']) simp
  qed
qed

lemma try_block_throws:
  "k < length fs \<Longrightarrow> run_steps (take k fs) st = Inr st' \<Longrightarrow> (fs ! k) st' = Inl e \<Longrightarrow>
   try_block fs st = (snd (snd st'), True)"
proof (induction fs arbitrary: k st)
  case Nil
  then show ?case by simp
next
  case (Cons f fs)
  show ?case
  proof (cases k)
    case 0
    with Cons.prems show ?thesis
      by simp
  next
    case (Suc k')
    with Cons.prems(2) obtain s where first: "f st = Inr s"
      and rest: "run_steps (take k' fs) s = Inr st'"
      by (auto split: sum.splits)
    from Cons.prems(1,3) Suc have "k' < length fs" and "(fs ! k') st' = Inl e"
      by simp_all
    from Cons.IH [OF this(1) rest this(2)] first show ?thesis
      by simp
  qed
qed

lemma run_steps_kept:
  assumes "\<forall>j<length fs. \<forall>st st'. kept_from (i + j) (snd (snd st)) \<longrightarrow> (fs ! j) st = Inr st'
             \<longrightarrow> kept_from (Suc (i + j)) (snd (snd st'))"
    and "kept_from i (snd (snd st))"
    and "k \<le> length fs"
    and "run_steps (take k fs) st = Inr st'"
  shows "kept_from (i + k) (snd (snd st'))"
  using assms
proof (induction fs arbitrary: i k st)
  case Nil
  then show ?case by simp
next
  case (Cons f fs)
  show ?case
  proof (cases k)
    case 0
    with Cons.prems(2,4) show ?thesis
      by simp
  next
    case (Suc k')
    with Cons.prems(4) obtain s where first: "f st = Inr s"
      and rest: "run_steps (take k' fs) s = Inr st'"
      by (auto split: sum.splits)
    from Cons.prems(1) [rule_format, of 0 st s] Cons.prems(2) first
    have kept: "kept_from (Suc i) (snd (snd s))"
      by simp
    have steps: "\<forall>j<length fs. \<forall>t t'. kept_from (Suc i + j) (snd (snd t)) \<longrightarrow> (fs ! j) t = Inr t'
             \<longrightarrow> kept_from (Suc (Suc i + j)) (snd (snd t'))"
    proof (intro allI impI)
      fix j t t'
      assume "j < length fs" "kept_from (Suc i + j) (snd (snd t))" "(fs ! j) t = Inr t'"
      with Cons.prems(1) [rule_format, of "Suc j" t t']
      show "kept_from (Suc (Suc i + j)) (snd (snd t'))"
        by simp
    qed
    from Cons.prems(3) Suc have "k' \<le> length fs"
      by simp
    from Cons.IH [OF steps kept this rest] Suc show ?thesis
      by simp
  qed
qed

lemma read_int_cfg:
  "read_int assign st = Inr st' \<Longrightarrow> \<exists>v. snd (snd st') = assign v (snd (snd st))"
  by (auto simp: read_int_def split: prod.splits sum.splits)

lemma read_string_cfg:
  "read_string assign st = Inr st' \<Longrightarrow> \<exists>v. snd (snd st') = assign v (snd (snd st))"
  by (auto simp: read_string_def split: prod.splits)

lemma read_double_cfg:
  "read_double stod assign st = Inr st' \<Longrightarrow> \<exists>v. snd (snd st') = assign v (snd (snd st))"
  by (auto simp: read_double_def split: prod.splits sum.splits)

lemma below_ten: "j < 10 \<Longrightarrow> j \<in> {0, 1, 2, 3, 4, 5, 6, 7, 8, 9 :: nat}"
  by auto

lemma settings_steps_kept:
  assumes "j < length (settings_steps stod)" and "kept_from j (snd (snd st))"
    and "(settings_steps stod ! j) st = Inr st'"
  shows "kept_from (Suc j) (snd (snd st'))"
proof -
  from assms(1) have "j \<in> {0, 1, 2, 3, 4, 5, 6, 7, 8, 9 :: nat}"
    by (intro below_ten) (simp add: settings_steps_def)
  then consider "j = 0" | "j = 1" | "j = 2" | "j = 3" | "j = 4" | "j = 5" | "j = 6" | "j = 7"
    | "j = 8" | "j = 9"
    by auto
  then show ?thesis
  proof cases
    case 1
    with assms(3) have "read_int (\<lambda>v cfg. cfg\<lparr>n_clusters := v\<rparr>) st = Inr st'"
      by (simp add: settings_steps_def)
    from read_int_cfg [OF this] assms(2) 1 show ?thesis
      by (auto simp: kept_from_def)
  next
    case 2
    with assms(3) have "read_int (\<lambda>v cfg. cfg\<lparr>resize := v\<rparr>) st = Inr st'"
      by (simp add: settings_steps_def)
    from read_int_cfg [OF this] assms(2) 2 show ?thesis
      by (auto simp: kept_from_def)
  next
    case 3
    with assms(3) have "read_int (\<lambda>v cfg. cfg\<lparr>win_w := v\<rparr>) st = Inr st'"
      by (simp add: settings_steps_def)
    from read_int_cfg [OF this] assms(2) 3 show ?thesis
      by (auto simp: kept_from_def)
  next
    case 4
    with assms(3) have "read_int (\<lambda>v cfg. cfg\<lparr>win_h := v\<rparr>) st = Inr st'"
      by (simp add: settings_steps_def)
    from read_int_cfg [OF this] assms(2) 4 show ?thesis
      by (auto simp: kept_from_def)
  next
    case 5
    with assms(3) have "read_int (\<lambda>v cfg. cfg\<lparr>color_w := v\<rparr>) st = Inr st'"
      by (simp add: settings_steps_def)
    from read_int_cfg [OF this] assms(2) 5 show ?thesis
      by (auto simp: kept_from_def)
  next
    case 6
    with assms(3) have "read_int (\<lambda>v cfg. cfg\<lparr>color_h := v\<rparr>) st = Inr st'"
      by (simp add: settings_steps_def)
    from read_int_cfg [OF this] assms(2) 6 show ?thesis
      by (auto simp: kept_from_def)
  next
    case 7
    with assms(3) have "read_string (\<lambda>v cfg. cfg\<lparr>path := v\<rparr>) st = Inr st'"
      by (simp add: settings_steps_def)
    from read_string_cfg [OF this] assms(2) 7 show ?thesis
      by (auto simp: kept_from_def)
  next
    case 8
    with assms(3) have "read_double stod (\<lambda>v cfg. cfg\<lparr>threshold := v\<rparr>) st = Inr st'"
      by (simp add: settings_steps_def)
    from read_double_cfg [OF this] assms(2) 8 show ?thesis
      by (auto simp: kept_from_def)
  next
    case 9
    with assms(3) have "read_int (\<lambda>v cfg. cfg\<lparr>vertical := (v = 1)\<rparr>) st = Inr st'"
      by (simp add: settings_steps_def)
    from read_int_cfg [OF this] assms(2) 9 show ?thesis
      by (auto simp: kept_from_def)
  next
    case 10
    with assms(3) have "read_int (\<lambda>v cfg. cfg\<lparr>reverse := (v = 1)\<rparr>) st = Inr st'"
      by (simp add: settings_steps_def)
    from read_int_cfg [OF this] assms(2) 10 show ?thesis
      by (auto simp: kept_from_def)
  qed
qed

lemma read_settings_missing_file: "read_settings stod None cfg = (cfg, True)"
  by (simp add: read_settings_def settings_steps_def ifstream_def read_int_def getline_def stoi_def)

lemma read_settings_first_value_fails:
  "stoi (snd (getline (ifstream file) [])) = Inl e \<Longrightarrow> read_settings stod file cfg = (cfg, True)"
  by (cases "getline (ifstream file) []")
     (simp add: read_settings_def settings_steps_def read_int_def)

text \<open>
  The message is printed only when a statement of the block has thrown: then the
  statements before it have run, and the global is what they made of it.
\<close>

lemma read_settings_diagnostic:
  assumes "read_settings stod file init_values = (cfg, True)"
  shows "\<exists>k<10. \<exists>st.
            run_steps (take k (settings_steps stod)) (ifstream file, [], init_values) = Inr st \<and>
            (\<exists>e. (settings_steps stod ! k) st = Inl e) \<and> cfg = snd (snd st)"
proof -
  have ten: "length (settings_steps stod) = 10"
    by (simp add: settings_steps_def)
  from assms
  have "try_block (settings_steps stod) (ifstream file, [], init_values) = (cfg, True)"
    by (simp add: read_settings_def)
  from try_block_fails [OF this] ten show ?thesis
    by simp
qed

text \<open>
  Values missing at the end of the file. When the last line present ends with a newline,
  the next \<open>getline\<close> reads an empty line, \<open>stoi\<close> throws and loading fails as for a
  malformed value. When it does not, the stream is at its end after that line, every
  later \<open>getline\<close> fails and leaves \<open>setting\<close> as it was, and the result of \<open>getline\<close>
  is never looked at: the last line is parsed again for each of the settings left, nothing
  throws and nothing is printed.
\<close>

lemma missing_values_empty_line:
  "read_settings stod (Some [CHR ''8'', CHR 0x0A, CHR ''1'', CHR ''0'', CHR ''0'', CHR 0x0A]) init_values
     = (init_values\<lparr>n_clusters := 8, resize := 100\<rparr>, True)"
  by (simp add: read_settings_def settings_steps_def ifstream_def read_int_def getline_def
      stoi_def isspace_def isdigit_def init_values_def)

lemma missing_values_last_line_reused:
  assumes "stod [CHR ''1'', CHR ''0'', CHR ''0''] = Inr t"
  shows "read_settings stod (Some [CHR ''8'', CHR 0x0A, CHR ''1'', CHR ''0'', CHR ''0'']) init_values
     = (\<lparr>n_clusters = 8, resize = 100, win_w = 100, win_h = 100, color_w = 100,
         color_h = 100, colors = 0, path = [CHR ''1'', CHR ''0'', CHR ''0''], threshold = t,
         vertical = False, reverse = False\<rparr>, False)"
  using assms
  by (simp add: read_settings_def settings_steps_def ifstream_def read_int_def read_string_def
      read_double_def getline_def stoi_def isspace_def isdigit_def init_values_def)

text \<open>
  Claim C6, as amended. The values are stored one by one as they are read, and nothing is
  undone when a later one fails. Whenever loading fails, that is, whenever the statement
  reading value number \<open>k\<close> throws after the statements before it have run (the file is
  missing, or the line parsed for the value is malformed, or it is empty because the value
  is missing), the message is printed and the function returns; the global is what the
  statements before made of it; and the setting number \<open>k\<close> and all the settings after it
  keep their initial values. When the file is missing, every setting keeps its initial
  value.
\<close>

theorem read_settings_failure:
  assumes "k < 10"
    and "run_steps (take k (settings_steps stod)) (ifstream file, [], init_values) = Inr st"
    and "(settings_steps stod ! k) st = Inl e"
  shows "read_settings stod file init_values = (snd (snd st), True) \<and>
         kept_from k (snd (snd st)) \<and>
         read_settings stod None init_values = (init_values, True)"
proof (intro conjI)
  let ?start = "(ifstream file, [], init_values)"
  have ten: "length (settings_steps stod) = 10"
    by (simp add: settings_steps_def)
  with assms(1) have k: "k < length (settings_steps stod)"
    by simp
  from try_block_throws [OF k assms(2,3)]
  show "read_settings stod file init_values = (snd (snd st), True)"
    by (simp add: read_settings_def)
  have start: "kept_from 0 (snd (snd ?start))"
    by (simp add: kept_from_def init_values_def)
  have steps: "\<forall>j<length (settings_steps stod). \<forall>s s'.
      kept_from (0 + j) (snd (snd s)) \<longrightarrow> (settings_steps stod ! j) s = Inr s'
        \<longrightarrow> kept_from (Suc (0 + j)) (snd (snd s'))"
  proof (intro allI impI)
    fix j s s'
    assume "j < length (settings_steps stod)" "kept_from (0 + j) (snd (snd s))"
      "(settings_steps stod ! j) s = Inr s'"
    then show "kept_from (Suc (0 + j)) (snd (snd s'))"
      using settings_steps_kept [of j stod s s'] by simp
  qed
  from k have "k \<le> length (settings_steps stod)"
    by simp
  from run_steps_kept [OF steps start this assms(2)]
  show "kept_from k (snd (snd st))"
    by simp
  show "read_settings stod None init_values = (init_values, True)"
    by (rule read_settings_missing_file)
qed

theorem read_settings_failure_witness:
  "(1 :: nat) < 10 \<and>
   run_steps (take 1 (settings_steps (\<lambda>s. Inl InvalidArgument)))
       (ifstream (Some [CHR ''8'', CHR 0x0A, CHR ''a'', CHR ''b'', CHR ''c'', CHR 0x0A]), [], init_values)
     = Inr (\<lparr>buf = [CHR ''a'', CHR ''b'', CHR ''c'', CHR 0x0A], eofbit = False, failbit = False\<rparr>,
            [CHR ''8''], init_values\<lparr>n_clusters := 8\<rparr>) \<and>
   (settings_steps (\<lambda>s. Inl InvalidArgument) ! 1)
       (\<lparr>buf = [CHR ''a'', CHR ''b'', CHR ''c'', CHR 0x0A], eofbit = False, failbit = False\<rparr>,
        [CHR ''8''], init_values\<lparr>n_clusters := 8\<rparr>)
     = Inl InvalidArgument \<and>
   read_settings (\<lambda>s. Inl InvalidArgument) (Some [CHR ''8'', CHR 0x0A, CHR ''a'', CHR ''b'', CHR ''c'', CHR 0x0A]) init_values
     = (init_values\<lparr>n_clusters := 8\<rparr>, True) \<and>
   kept_from 1 (init_values\<lparr>n_clusters := 8\<rparr>)"
proof -
  let ?stod = "\<lambda>s :: string. Inl InvalidArgument :: error + real"
  let ?st = "(\<lparr>buf = [CHR ''a'', CHR ''b'', CHR ''c'', CHR 0x0A], eofbit = False, failbit = False\<rparr>,
              [CHR ''8''], init_values\<lparr>n_clusters := 8\<rparr>)"
  have k: "(1 :: nat) < 10"
    by simp
  have run: "run_steps (take 1 (settings_steps ?stod)) (ifstream (Some [CHR ''8'', CHR 0x0A, CHR ''a'', CHR ''b'', CHR ''c'', CHR 0x0A]), [], init_values)
      = Inr ?st"
    by (simp add: settings_steps_def ifstream_def read_int_def getline_def
        stoi_def isspace_def isdigit_def)
  have throw: "(settings_steps ?stod ! 1) ?st = Inl InvalidArgument"
    by (simp add: settings_steps_def read_int_def getline_def stoi_def isspace_def isdigit_def)
  from read_settings_failure [OF k run throw]
  have "read_settings ?stod (Some [CHR ''8'', CHR 0x0A, CHR ''a'', CHR ''b'', CHR ''c'', CHR 0x0A]) init_values = (init_values\<lparr>n_clusters := 8\<rparr>, True)"
    and "kept_from 1 (init_values\<lparr>n_clusters := 8\<rparr>)"
    by simp_all
  with k run throw show ?thesis
    by (intro conjI)
qed

text \<open>
  A file whose first line is \<open>8\<close> and whose second line is \<open>abc\<close>: loading fails at the
  second value, the message is printed, and \<open>n_clusters\<close> is 8 afterwards, not 6.
\<close>

theorem read_settings_partial_counterexample:
  "read_settings (\<lambda>s. Inl InvalidArgument) (Some [CHR ''8'', CHR 0x0A, CHR ''a'', CHR ''b'', CHR ''c'', CHR 0x0A]) init_values
     = (init_values\<lparr>n_clusters := 8\<rparr>, True) \<and>
   n_clusters (init_values\<lparr>n_clusters := 8\<rparr>) \<noteq> n_clusters init_values"
  by (simp add: read_settings_def settings_steps_def ifstream_def read_int_def getline_def
      stoi_def isspace_def isdigit_def init_values_def)

subsection \<open>Properties of main\<close>

lemma process_image_cfg: "process_image cfg win pic = Inr (cfg', out) \<Longrightarrow> cfg' = cfg"
  by (auto simp: process_image_def Let_def split: prod.splits sum.splits)

lemma main_loop_cfg: "main_loop cfg win pics outs = Inr (code, cfg', outs') \<Longrightarrow> cfg' = cfg"
proof (induction pics arbitrary: outs)
  case Nil
  then show ?case by simp
next
  case (Cons pic pics)
  show ?case
  proof (cases "readable pic")
    case False
    with Cons.prems show ?thesis by simp
  next
    case True
    with Cons.prems obtain c out where step: "process_image cfg win pic = Inr (c, out)"
      and rest: "main_loop c win pics (outs @ [out]) = Inr (code, cfg', outs')"
      by (auto split: sum.splits)
    from step have "c = cfg"
      by (rule process_image_cfg)
    with rest Cons.IH show ?thesis
      by simp
  qed
qed

lemma main_init_colors: "colors (main_init stod file argv) = n_clusters (main_init stod file argv) - 1"
  by (simp add: main_init_def Let_def)

text \<open>
  Claim C7. With at least two clusters, \<open>colors\<close> is \<open>n_clusters - 1\<close> once \<open>main\<close> has
  set it, and it stays so: the processing of a picture returns the global as it got it, and
  so does the whole loop, however many pictures there are.
\<close>

theorem colors_is_clusters_minus_one:
  assumes "2 \<le> n_clusters (main_init stod file argv)"
  shows "colors (main_init stod file argv) = n_clusters (main_init stod file argv) - 1 \<and>
         (\<forall>win pic cfg' out. process_image (main_init stod file argv) win pic = Inr (cfg', out) \<longrightarrow>
            colors cfg' = n_clusters cfg' - 1 \<and> n_clusters cfg' = n_clusters (main_init stod file argv)) \<and>
         (\<forall>pics code cfg' outs. main stod file argv pics = Inr (code, cfg', outs) \<longrightarrow>
            colors cfg' = n_clusters cfg' - 1 \<and> n_clusters cfg' = n_clusters (main_init stod file argv))"
proof (intro conjI allI impI)
  show "colors (main_init stod file argv) = n_clusters (main_init stod file argv) - 1"
    by (rule main_init_colors)
next
  fix win pic cfg' out
  assume "process_image (main_init stod file argv) win pic = Inr (cfg', out)"
  then have same: "cfg' = main_init stod file argv"
    by (rule process_image_cfg)
  then show "colors cfg' = n_clusters cfg' - 1"
    by (simp add: main_init_colors)
  from same show "n_clusters cfg' = n_clusters (main_init stod file argv)"
    by simp
next
  fix pics code cfg' outs
  assume "main stod file argv pics = Inr (code, cfg', outs)"
  then have same: "cfg' = main_init stod file argv"
    by (auto simp: main_def Let_def dest: main_loop_cfg)
  then show "colors cfg' = n_clusters cfg' - 1"
    by (simp add: main_init_colors)
  from same show "n_clusters cfg' = n_clusters (main_init stod file argv)"
    by simp
qed

lemma main_init_defaults:
  "main_init (\<lambda>s. Inl InvalidArgument) None [] = init_values\<lparr>colors := 5\<rparr>"
  by (simp add: main_init_def read_settings_missing_file init_values_def)

theorem colors_is_clusters_minus_one_witness:
  "2 \<le> n_clusters (main_init (\<lambda>s. Inl InvalidArgument) None []) \<and>
   colors (main_init (\<lambda>s. Inl InvalidArgument) None []) = 5 \<and>
   n_clusters (main_init (\<lambda>s. Inl InvalidArgument) None []) = 6"
proof -
  have h: "2 \<le> n_clusters (main_init (\<lambda>s. Inl InvalidArgument) None [])"
    by (simp add: main_init_defaults init_values_def)
  have n: "n_clusters (main_init (\<lambda>s. Inl InvalidArgument) None []) = 6"
    by (simp add: main_init_defaults init_values_def)
  from colors_is_clusters_minus_one [OF h] n
  have "colors (main_init (\<lambda>s. Inl InvalidArgument) None []) = 5"
    by simp
  with h n show ?thesis
    by (intro conjI)
qed

subsection \<open>Properties of create\_palette\<close>

lemma unat_size_t_of_int: "0 \<le> i \<Longrightarrow> i < 2 ^ 64 \<Longrightarrow> unat (size_t_of_int i) = nat i"
proof -
  assume i: "0 \<le> i" "i < 2 ^ 64"
  then have "nat i < 2 ^ LENGTH(64)"
    by (simp add: nat_less_iff)
  then have "unat (word_of_nat (nat i) :: 64 word) = nat i"
    by (simp only: unat_of_nat mod_less)
  with i(1) show ?thesis
    by (simp only: size_t_of_int_def word_of_int_nat)
qed

lemma int_of_size_t_small: "unat w < 2 ^ 31 \<Longrightarrow> int_of_size_t w = int (unat w)"
proof -
  assume small: "unat w < 2 ^ 31"
  have eq: "uint w = int (unat w)"
    by (rule uint_nat)
  from small have "int (unat w) < 2 ^ 31"
    by (metis of_nat_less_iff of_nat_numeral of_nat_power)
  with eq have upper: "uint w < 2 ^ 31"
    by simp
  have "- (2 ^ 31) \<le> (0 :: int)" and "0 \<le> uint w"
    by simp_all
  then have lower: "- (2 ^ 31) \<le> uint w"
    by (rule order_trans)
  have "int_of_size_t w = signed_take_bit 31 (uint w)"
    by (simp add: int_of_size_t_def signed_ucast_eq)
  also from lower upper have "\<dots> = uint w"
    by (rule signed_take_bit_int_eq_self)
  finally show ?thesis
    by (simp only: eq)
qed

lemma loop_guard:
  assumes "1 \<le> rows centers" and "rows centers < 2 ^ 31"
  shows "cluster_idx < size_t_of_int (rows centers - 1) \<longleftrightarrow> unat cluster_idx < nat (rows centers - 1)"
proof -
  from assms have "0 \<le> rows centers - 1" and "rows centers - 1 < 2 ^ 64"
    by simp_all
  then have "unat (size_t_of_int (rows centers - 1)) = nat (rows centers - 1)"
    by (rule unat_size_t_of_int)
  then show ?thesis
    by (simp add: word_less_nat_alt)
qed

lemma unat_next:
  assumes "rows centers < 2 ^ 31" and "unat cluster_idx < nat (rows centers - 1)"
  shows "unat (cluster_idx + 1 :: 64 word) = Suc (unat cluster_idx)"
proof -
  from assms have "unat cluster_idx + unat (1 :: 64 word) < 2 ^ LENGTH(64)"
    by simp
  then have "unat (cluster_idx + 1) = unat cluster_idx + unat (1 :: 64 word)"
    by (simp only: unat_add_lem [THEN iffD1])
  then show ?thesis
    by simp
qed

lemma access_in_bounds:
  assumes "rows centers < 2 ^ 31" and "3 \<le> cols centers"
    and "unat cluster_idx < nat (rows centers - 1)" and "j \<in> {0, 1, 2}"
  shows "mat_at centers (int_of_size_t cluster_idx) j = Inr (elem centers (uint cluster_idx) j)"
proof -
  from assms(1,3) have "unat cluster_idx < 2 ^ 31"
    by simp
  then have "int_of_size_t cluster_idx = int (unat cluster_idx)"
    by (rule int_of_size_t_small)
  then have conv: "int_of_size_t cluster_idx = uint cluster_idx"
    by (simp only: uint_nat)
  from assms(3) have "int (unat cluster_idx) < rows centers - 1"
    by (simp only: zless_nat_eq_int_zless)
  then have "uint cluster_idx < rows centers" and "0 \<le> uint cluster_idx"
    by (simp_all only: uint_nat)
  with assms(2,4) show ?thesis
    by (auto simp: mat_at_def conv)
qed

lemma palette_loop_step:
  assumes "1 \<le> rows centers" and "rows centers < 2 ^ 31" and "3 \<le> cols centers"
    and "unat cluster_idx < nat (rows centers - 1)"
  shows "palette_loop x y centers cluster_idx palette =
           (case Mat_fill x y (elem centers (uint cluster_idx) 0,
                               elem centers (uint cluster_idx) 1,
                               elem centers (uint cluster_idx) 2) of
              Inl e \<Rightarrow> Inl e
            | Inr m \<Rightarrow> palette_loop x y centers (cluster_idx + 1) (palette @ [m]))"
proof -
  from assms have guard: "cluster_idx < size_t_of_int (rows centers - 1)"
    by (simp add: loop_guard)
  have "mat_at centers (int_of_size_t cluster_idx) 0 = Inr (elem centers (uint cluster_idx) 0)"
    and "mat_at centers (int_of_size_t cluster_idx) 1 = Inr (elem centers (uint cluster_idx) 1)"
    and "mat_at centers (int_of_size_t cluster_idx) 2 = Inr (elem centers (uint cluster_idx) 2)"
    using assms(2,3,4) by (simp_all add: access_in_bounds)
  with guard show ?thesis
    by (subst palette_loop.simps) simp
qed

lemma palette_loop_exit:
  assumes "1 \<le> rows centers" and "rows centers < 2 ^ 31"
    and "\<not> unat cluster_idx < nat (rows centers - 1)"
  shows "palette_loop x y centers cluster_idx palette = Inr palette"
proof -
  from assms have "\<not> cluster_idx < size_t_of_int (rows centers - 1)"
    by (simp add: loop_guard)
  then show ?thesis
    by (subst palette_loop.simps) simp
qed

lemma palette_loop_cells:
  assumes "1 \<le> rows centers" and "rows centers < 2 ^ 31" and "3 \<le> cols centers"
    and "0 \<le> x" and "0 \<le> y"
  shows "palette_loop x y centers cluster_idx palette =
           Inr (palette @ map (\<lambda>k. cluster_mat x y centers (int k))
                              [unat cluster_idx..<nat (rows centers - 1)])"
proof (induction "nat (rows centers - 1) - unat cluster_idx" arbitrary: cluster_idx palette)
  case 0
  then have "\<not> unat cluster_idx < nat (rows centers - 1)"
    by simp
  then show ?case
    using assms(1,2) by (simp add: palette_loop_exit)
next
  case (Suc n)
  then have below: "unat cluster_idx < nat (rows centers - 1)"
    by simp
  have succ: "unat (cluster_idx + 1) = Suc (unat cluster_idx)"
    using assms(2) below by (rule unat_next)
  with Suc.hyps(2) have "n = nat (rows centers - 1) - unat (cluster_idx + 1)"
    by simp
  from Suc.hyps(1) [OF this]
  have rest: "palette_loop x y centers (cluster_idx + 1) pal =
           Inr (pal @ map (\<lambda>k. cluster_mat x y centers (int k))
                          [Suc (unat cluster_idx)..<nat (rows centers - 1)])" for pal
    by (simp only: succ)
  have fill: "Mat_fill x y (elem centers (uint cluster_idx) 0,
                            elem centers (uint cluster_idx) 1,
                            elem centers (uint cluster_idx) 2)
              = Inr (cluster_mat x y centers (uint cluster_idx))"
    using assms(4,5) by (simp add: Mat_fill_def cluster_mat_def)
  from below have "[unat cluster_idx..<nat (rows centers - 1)]
                   = unat cluster_idx # [Suc (unat cluster_idx)..<nat (rows centers - 1)]"
    by (rule upt_conv_Cons)
  then show ?case
    by (simp add: palette_loop_step [OF assms(1,2,3) below] fill rest)
qed

lemma palette_loop_in_bounds:
  assumes "1 \<le> rows centers" and "rows centers < 2 ^ 31" and "3 \<le> cols centers"
  shows "palette_loop x y centers cluster_idx palette \<noteq> Inl OutOfBounds"
proof (cases "0 \<le> x \<and> 0 \<le> y")
  case True
  with assms show ?thesis
    by (simp add: palette_loop_cells)
next
  case False
  then have fill: "Mat_fill x y s = Inl BadSize" for s
    by (auto simp: Mat_fill_def)
  show ?thesis
  proof (cases "unat cluster_idx < nat (rows centers - 1)")
    case True
    from palette_loop_step [OF assms True] show ?thesis
      by (simp add: fill)
  next
    case False
    with assms(1,2) show ?thesis
      by (simp add: palette_loop_exit)
  qed
qed

lemma vconcat_not_oob: "vconcat ms \<noteq> Inl OutOfBounds"
  by (simp add: vconcat_def split: list.split)

lemma hconcat_not_oob: "hconcat ms \<noteq> Inl OutOfBounds"
  by (simp add: hconcat_def split: list.split)

text \<open>
  Claim C9. For a matrix of centres with at least two rows (and the three columns of a
  colour), whenever the guard of the loop of \<open>create_palette\<close> holds, the index, taken as
  the \<open>int\<close> that \<open>at\<close> receives, is at least 0 and below \<open>centers.rows - 1\<close>; and no
  element access is outside the matrix: neither the loop nor \<open>create_palette\<close> ends in
  \<open>OutOfBounds\<close>.
\<close>

theorem palette_accesses_in_bounds:
  assumes "2 \<le> rows centers" and "rows centers < 2 ^ 31" and "cols centers = 3"
  shows "(\<forall>cluster_idx. cluster_idx < size_t_of_int (rows centers - 1) \<longrightarrow>
            0 \<le> int_of_size_t cluster_idx \<and> int_of_size_t cluster_idx < rows centers - 1) \<and>
         palette_loop x y centers 0 [] \<noteq> Inl OutOfBounds \<and>
         create_palette cfg ver rv centers \<noteq> Inl OutOfBounds"
proof (intro conjI allI impI)
  from assms have shape: "1 \<le> rows centers" "rows centers < 2 ^ 31" "3 \<le> cols centers"
    by simp_all
  have loop: "palette_loop x' y' centers 0 [] \<noteq> Inl OutOfBounds" for x' y'
    using shape by (rule palette_loop_in_bounds)
  then show "palette_loop x y centers 0 [] \<noteq> Inl OutOfBounds" .
  from loop show "create_palette cfg ver rv centers \<noteq> Inl OutOfBounds"
    by (auto simp: create_palette_def Let_def vconcat_not_oob hconcat_not_oob split: sum.split)
  fix cluster_idx
  assume "cluster_idx < size_t_of_int (rows centers - 1)"
  with shape(1,2) have below: "unat cluster_idx < nat (rows centers - 1)"
    by (simp add: loop_guard)
  with shape(2) have "unat cluster_idx < 2 ^ 31"
    by simp
  then have conv: "int_of_size_t cluster_idx = int (unat cluster_idx)"
    by (rule int_of_size_t_small)
  from below have "int (unat cluster_idx) < rows centers - 1"
    by (simp only: zless_nat_eq_int_zless)
  with conv show "0 \<le> int_of_size_t cluster_idx" and "int_of_size_t cluster_idx < rows centers - 1"
    by simp_all
qed

theorem palette_accesses_in_bounds_witness:
  "2 \<le> rows \<lparr>rows = 6, cols = 3, elem = (\<lambda>i j. real_of_int (10 * i + j))\<rparr> \<and>
   rows \<lparr>rows = 6, cols = 3, elem = (\<lambda>i j. real_of_int (10 * i + j))\<rparr> < 2 ^ 31 \<and>
   cols \<lparr>rows = 6, cols = 3, elem = (\<lambda>i j. real_of_int (10 * i + j))\<rparr> = 3 \<and>
   (4 :: 64 word)
     < size_t_of_int (rows \<lparr>rows = 6, cols = 3, elem = (\<lambda>i j. real_of_int (10 * i + j))\<rparr> - 1) \<and>
   int_of_size_t 4 < rows \<lparr>rows = 6, cols = 3, elem = (\<lambda>i j. real_of_int (10 * i + j))\<rparr> - 1 \<and>
   palette_loop 139 128 \<lparr>rows = 6, cols = 3, elem = (\<lambda>i j. real_of_int (10 * i + j))\<rparr> 0 []
     \<noteq> Inl OutOfBounds \<and>
   create_palette init_values True True
     \<lparr>rows = 6, cols = 3, elem = (\<lambda>i j. real_of_int (10 * i + j))\<rparr> \<noteq> Inl OutOfBounds"
proof -
  let ?centers = "\<lparr>rows = 6, cols = 3, elem = (\<lambda>i j. real_of_int (10 * i + j))\<rparr>"
  have h: "2 \<le> rows ?centers" "rows ?centers < 2 ^ 31" "cols ?centers = 3"
    by simp_all
  have guard: "(4 :: 64 word) < size_t_of_int (rows ?centers - 1)"
    by (simp add: size_t_of_int_def)
  note inst = palette_accesses_in_bounds [OF h, of 139 128 init_values True True]
  from inst guard have index: "int_of_size_t 4 < rows ?centers - 1"
    by blast
  from inst have loop: "palette_loop 139 128 ?centers 0 [] \<noteq> Inl OutOfBounds"
    and whole: "create_palette init_values True True ?centers \<noteq> Inl OutOfBounds"
    by blast+
  from h guard index loop whole show ?thesis
    by (intro conjI)
qed

text \<open>
  Without the precondition the access can be outside: for a matrix with no row the bound
  \<open>centers.rows-1\<close> wraps around to the largest \<open>size_t\<close>, and the first access fails.
\<close>

lemma no_rows_out_of_bounds:
  "palette_loop 139 128 \<lparr>rows = 0, cols = 3, elem = (\<lambda>i j. 0)\<rparr> 0 [] = Inl OutOfBounds"
  by (subst palette_loop.simps) (simp add: size_t_of_int_def int_of_size_t_def mat_at_def word_gt_0)

lemma column_cv_sort: "column (cv_sort c) j = sort (column c j)"
proof -
  have "length (sort (column c j)) = nat (rows c)"
    by (simp add: column_def)
  then have "map (\<lambda>k. sort (column c j) ! k) [0..<nat (rows c)] = sort (column c j)"
    by (metis map_nth)
  then show ?thesis
    by (subst column_def) (simp add: cv_sort_def)
qed

lemma sorted_last_Max:
  fixes xs :: "real list"
  assumes "sorted xs" and "xs \<noteq> []"
  shows "xs ! (length xs - 1) = Max (set xs)"
proof -
  have "\<forall>v\<in>set xs. v \<le> xs ! (length xs - 1)"
  proof
    fix v assume "v \<in> set xs"
    then obtain i where "i < length xs" "v = xs ! i"
      by (auto simp: in_set_conv_nth)
    with assms(1) show "v \<le> xs ! (length xs - 1)"
      by (simp add: sorted_nth_mono)
  qed
  moreover from assms(2) have "xs ! (length xs - 1) \<in> set xs"
    by simp
  ultimately show ?thesis
    by (intro Max_eqI [symmetric]) simp_all
qed

lemma rows_foldl_vstack: "rows (foldl vstack m ms) = rows m + sum_list (map rows ms)"
  by (induction ms arbitrary: m) (simp_all add: vstack_def)

lemma cols_foldl_vstack: "cols (foldl vstack m ms) = cols m"
  by (induction ms arbitrary: m) (simp_all add: vstack_def)

lemma rows_foldl_hstack: "rows (foldl hstack m ms) = rows m"
  by (induction ms arbitrary: m) (simp_all add: hstack_def)

lemma cols_foldl_hstack: "cols (foldl hstack m ms) = cols m + sum_list (map cols ms)"
  by (induction ms arbitrary: m) (simp_all add: hstack_def)

lemma sum_list_const: "\<forall>m\<in>set ms. f m = (x :: int) \<Longrightarrow> sum_list (map f ms) = x * int (length ms)"
  by (induction ms) (simp_all add: algebra_simps)

lemma vconcat_cells:
  assumes "ms \<noteq> []" and "\<forall>m\<in>set ms. rows m = x \<and> cols m = y"
  shows "\<exists>v. vconcat ms = Inr v \<and> rows v = x * int (length ms) \<and> cols v = y"
proof -
  from assms(1) obtain m ms' where ms: "ms = m # ms'"
    by (cases ms) auto
  with assms(2) have m: "rows m = x" "cols m = y" and rest: "\<forall>k\<in>set ms'. rows k = x \<and> cols k = y"
    by simp_all
  from rest have "sum_list (map rows ms') = x * int (length ms')"
    by (intro sum_list_const) simp
  with m rest show ?thesis
    by (simp add: ms vconcat_def list_all_iff rows_foldl_vstack cols_foldl_vstack algebra_simps)
qed

lemma hconcat_cells:
  assumes "ms \<noteq> []" and "\<forall>m\<in>set ms. rows m = x \<and> cols m = y"
  shows "\<exists>v. hconcat ms = Inr v \<and> rows v = x \<and> cols v = y * int (length ms)"
proof -
  from assms(1) obtain m ms' where ms: "ms = m # ms'"
    by (cases ms) auto
  with assms(2) have m: "rows m = x" "cols m = y" and rest: "\<forall>k\<in>set ms'. rows k = x \<and> cols k = y"
    by simp_all
  from rest have "sum_list (map cols ms') = y * int (length ms')"
    by (intro sum_list_const) simp
  with m rest show ?thesis
    by (simp add: ms hconcat_def list_all_iff rows_foldl_hstack cols_foldl_hstack algebra_simps)
qed

lemma create_palette_size:
  assumes "2 \<le> rows centers" and "rows centers < 2 ^ 31" and "3 \<le> cols centers"
    and "0 \<le> color_w cfg" and "0 \<le> color_h cfg"
  shows "\<exists>model. create_palette cfg ver rv centers = Inr model \<and>
           (if ver then cols model = color_w cfg \<and> rows model = color_h cfg * (rows centers - 1)
            else cols model = color_h cfg * (rows centers - 1) \<and> rows model = color_w cfg)"
proof -
  let ?x = "if ver then color_h cfg else color_w cfg"
  let ?y = "if ver then color_w cfg else color_h cfg"
  let ?cells = "map (\<lambda>k. cluster_mat ?x ?y centers (int k)) [0..<nat (rows centers - 1)]"
  let ?palette = "if rv then rev ?cells else ?cells"
  from assms have "1 \<le> rows centers" and "0 \<le> ?x" and "0 \<le> ?y"
    by simp_all
  from palette_loop_cells [OF this(1) assms(2,3) this(2,3), of 0 "[]"]
  have loop: "palette_loop ?x ?y centers 0 [] = Inr ?cells"
    by simp
  have len: "int (length ?palette) = rows centers - 1" and nonempty: "?palette \<noteq> []"
    using assms(1) by auto
  have shape: "\<forall>m\<in>set ?palette. rows m = ?x \<and> cols m = ?y"
    by (auto simp: cluster_mat_def)
  have run: "create_palette cfg ver rv centers = (if ver then vconcat ?palette else hconcat ?palette)"
    using loop by (simp add: create_palette_def Let_def)
  show ?thesis
  proof (cases ver)
    case True
    from vconcat_cells [OF nonempty shape] obtain v where
      "vconcat ?palette = Inr v" "rows v = ?x * int (length ?palette)" "cols v = ?y"
      by blast
    with True run len show ?thesis
      by simp
  next
    case False
    from hconcat_cells [OF nonempty shape] obtain v where
      "hconcat ?palette = Inr v" "rows v = ?x" "cols v = ?y * int (length ?palette)"
      by blast
    with False run len show ?thesis
      by simp
  qed
qed

text \<open>
  Claim C5, as amended. For a matrix of centres with \<open>n_clusters\<close> rows, whatever its
  values, and settings whose product \<open>color_h * colors\<close> fits an \<open>int\<close>, the strip is built
  and its size is the one \<open>setwin\<close> computes from the settings alone: \<open>color_w\<close> wide and
  \<open>color_h * colors\<close> high when \<open>vertical\<close>, and the other way round otherwise. (The width
  of a matrix is its number of columns.)
\<close>

theorem strip_size_is_setwin:
  assumes "rows centers = n_clusters cfg" and "colors cfg = n_clusters cfg - 1"
    and "2 \<le> n_clusters cfg" and "n_clusters cfg < 2 ^ 31" and "cols centers = 3"
    and "0 \<le> color_w cfg" and "color_w cfg < 2 ^ 31" and "0 \<le> color_h cfg"
    and "color_h cfg * colors cfg < 2 ^ 31"
  shows "\<exists>model. create_palette cfg (vertical cfg) (reverse cfg) centers = Inr model \<and>
           cols model = px (setwin cfg) \<and> rows model = py (setwin cfg) \<and>
           (if vertical cfg
            then cols model = color_w cfg \<and> rows model = color_h cfg * colors cfg
            else cols model = color_h cfg * colors cfg \<and> rows model = color_w cfg)"
proof -
  from assms have "2 \<le> rows centers" and "rows centers < 2 ^ 31" and "3 \<le> cols centers"
    by simp_all
  from create_palette_size [OF this assms(6,8), of "vertical cfg" "reverse cfg"]
  obtain model where "create_palette cfg (vertical cfg) (reverse cfg) centers = Inr model"
    and "if vertical cfg
         then cols model = color_w cfg \<and> rows model = color_h cfg * (rows centers - 1)
         else cols model = color_h cfg * (rows centers - 1) \<and> rows model = color_w cfg"
    by blast
  moreover from assms(2,3,8) have "0 \<le> color_h cfg * colors cfg"
    by simp
  with assms(9) have "wrap_int (color_h cfg * colors cfg) = color_h cfg * colors cfg"
    by (intro wrap_int_id) simp_all
  ultimately show ?thesis
    using assms(1,2) by (auto simp: setwin_def split: if_splits)
qed

theorem strip_size_is_setwin_witness:
  "rows \<lparr>rows = 6, cols = 3, elem = (\<lambda>i j. real_of_int (10 * i + j))\<rparr> = n_clusters (init_values\<lparr>colors := 5\<rparr>) \<and>
   colors (init_values\<lparr>colors := 5\<rparr>) = n_clusters (init_values\<lparr>colors := 5\<rparr>) - 1 \<and>
   2 \<le> n_clusters (init_values\<lparr>colors := 5\<rparr>) \<and>
   n_clusters (init_values\<lparr>colors := 5\<rparr>) < 2 ^ 31 \<and>
   cols \<lparr>rows = 6, cols = 3, elem = (\<lambda>i j. real_of_int (10 * i + j))\<rparr> = 3 \<and>
   0 \<le> color_w (init_values\<lparr>colors := 5\<rparr>) \<and> color_w (init_values\<lparr>colors := 5\<rparr>) < 2 ^ 31 \<and>
   0 \<le> color_h (init_values\<lparr>colors := 5\<rparr>) \<and>
   color_h (init_values\<lparr>colors := 5\<rparr>) * colors (init_values\<lparr>colors := 5\<rparr>) < 2 ^ 31 \<and>
   (\<exists>model. create_palette (init_values\<lparr>colors := 5\<rparr>) True True
               \<lparr>rows = 6, cols = 3, elem = (\<lambda>i j. real_of_int (10 * i + j))\<rparr> = Inr model \<and>
            cols model = 128 \<and> rows model = 695)"
proof -
  let ?cfg = "init_values\<lparr>colors := 5\<rparr>"
  let ?centers = "\<lparr>rows = 6, cols = 3, elem = (\<lambda>i j. real_of_int (10 * i + j))\<rparr>"
  have h: "rows ?centers = n_clusters ?cfg" "colors ?cfg = n_clusters ?cfg - 1"
    "2 \<le> n_clusters ?cfg" "n_clusters ?cfg < 2 ^ 31" "cols ?centers = 3"
    "0 \<le> color_w ?cfg" "color_w ?cfg < 2 ^ 31" "0 \<le> color_h ?cfg"
    "color_h ?cfg * colors ?cfg < 2 ^ 31"
    by (simp_all add: init_values_def)
  from strip_size_is_setwin [OF h]
  have "\<exists>model. create_palette ?cfg True True ?centers = Inr model \<and>
            cols model = 128 \<and> rows model = 695"
    by (auto simp: init_values_def)
  with h show ?thesis
    by (intro conjI)
qed

text \<open>
  Beyond that bound the height \<open>setwin\<close> returns is not the product: with cells 100000
  high and 100001 clusters the product is 10000000000 and \<open>setwin\<close> returns 1410065408.
\<close>

theorem setwin_wraps_counterexample:
  "2 \<le> n_clusters (init_values\<lparr>n_clusters := 100001, color_h := 100000, colors := 100000\<rparr>) \<and>
   colors (init_values\<lparr>n_clusters := 100001, color_h := 100000, colors := 100000\<rparr>)
     = n_clusters (init_values\<lparr>n_clusters := 100001, color_h := 100000, colors := 100000\<rparr>) - 1 \<and>
   color_h (init_values\<lparr>n_clusters := 100001, color_h := 100000, colors := 100000\<rparr>)
     * colors (init_values\<lparr>n_clusters := 100001, color_h := 100000, colors := 100000\<rparr>)
     = 10000000000 \<and>
   py (setwin (init_values\<lparr>n_clusters := 100001, color_h := 100000, colors := 100000\<rparr>))
     = 1410065408"
  by (simp add: setwin_def init_values_def wrap_int_def)

subsection \<open>Properties of bincount\<close>

lemma foldl_max_Max: "foldl max l ls = Max (set (l # ls))"
proof (induction ls arbitrary: l)
  case Nil
  show ?case by simp
next
  case (Cons a ls)
  have "foldl max l (a # ls) = Max (set (max l a # ls))"
    using Cons.IH [of "max l a"] by simp
  also have "\<dots> = Max (set (l # a # ls))"
    by (cases "ls = []") (simp_all add: max.assoc)
  finally show ?case .
qed

lemma count_labels_inv:
  assumes "\<forall>l\<in>set labels. 0 \<le> l \<and> l < int (length counts)"
    and "\<forall>i<length counts. 0 \<le> counts ! i \<and> counts ! i + int (length labels) < 2 ^ 31"
  shows "\<exists>cs. count_labels counts labels = Inr cs \<and> length cs = length counts \<and>
     (\<forall>i<length counts. cs ! i = counts ! i + int (count_list labels (int i)))"
  using assms
proof (induction labels arbitrary: counts)
  case Nil
  show ?case by simp
next
  case (Cons l labels)
  let ?c = "counts[nat l := counts ! nat l + 1]"
  from Cons.prems(1) have l: "0 \<le> l" "l < int (length counts)" by simp_all
  then have pos: "nat l < length counts" by simp
  with Cons.prems(2) have "0 \<le> counts ! nat l" "counts ! nat l + 1 < 2 ^ 31"
    by auto
  then have exact: "wrap_int (counts ! nat l + 1) = counts ! nat l + 1"
    by (intro wrap_int_id) simp_all
  from Cons.prems(1) have labels: "\<forall>k\<in>set labels. 0 \<le> k \<and> k < int (length ?c)" by simp
  have room: "\<forall>i<length ?c. 0 \<le> ?c ! i \<and> ?c ! i + int (length labels) < 2 ^ 31"
  proof (intro allI impI)
    fix i assume "i < length ?c"
    then have i: "i < length counts" by simp
    with Cons.prems(2) have "0 \<le> counts ! i" "counts ! i + int (length (l # labels)) < 2 ^ 31"
      by simp_all
    with i show "0 \<le> ?c ! i \<and> ?c ! i + int (length labels) < 2 ^ 31"
      by (cases "i = nat l") simp_all
  qed
  from Cons.IH [OF labels room] obtain cs where cs: "count_labels ?c labels = Inr cs"
    "length cs = length ?c" "\<forall>i<length ?c. cs ! i = ?c ! i + int (count_list labels (int i))"
    by blast
  have "\<forall>i<length counts. cs ! i = counts ! i + int (count_list (l # labels) (int i))"
  proof (intro allI impI)
    fix i assume i: "i < length counts"
    show "cs ! i = counts ! i + int (count_list (l # labels) (int i))"
    proof (cases "i = nat l")
      case True
      with i l cs(3) show ?thesis by simp
    next
      case False
      with l have "l \<noteq> int i" by auto
      with False i cs(3) show ?thesis by simp
    qed
  qed
  with cs l exact show ?case by simp
qed

lemma sum_list_count_list_upt:
  "\<forall>l\<in>set labels. 0 \<le> l \<and> l < int n \<Longrightarrow>
   (\<Sum>i\<leftarrow>[0..<n]. int (count_list labels (int i))) = int (length labels)"
proof (induction labels)
  case Nil
  show ?case by simp
next
  case (Cons l labels)
  then have l: "0 \<le> l" "nat l < n" by auto
  have "(\<Sum>i\<leftarrow>[0..<n]. int (count_list (l # labels) (int i)))
      = (\<Sum>i\<leftarrow>[0..<n]. (if i = nat l then 1 else 0) + int (count_list labels (int i)))"
    using l by (intro arg_cong [where f = sum_list] map_cong) auto
  also have "\<dots> = (\<Sum>i\<leftarrow>[0..<n]. (if i = nat l then 1 else 0)) + (\<Sum>i\<leftarrow>[0..<n]. int (count_list labels (int i)))"
    by (simp add: sum_list_addf)
  also have "(\<Sum>i\<leftarrow>[0..<n]. (if i = nat l then 1 else 0)) = (1::int)"
    using l(2) by (simp add: interv_sum_list_conv_sum_set_nat)
  finally show ?case using Cons by simp
qed

lemma max_element_Max: "labels \<noteq> [] \<Longrightarrow> max_element labels = Inr (Max (set labels))"
  by (cases labels) (simp_all only: max_element.simps foldl_max_Max, simp)

text \<open>
  Claim C10, as amended. For a non-empty vector of non-negative labels, all of them below
  the largest \<open>int\<close> 2147483647, \<open>bincount\<close> returns a vector of length maximum label + 1
  whose entry \<open>i\<close> is the number of occurrences of \<open>i\<close> among the labels, and whose
  entries add up to the number of labels. On the empty vector there is no maximum to take.
  (The vector has fewer than \<open>2 ^ 31\<close> entries, as the labels of a matrix have: its number
  of rows is an \<open>int\<close>. So every count fits an \<open>int\<close>.)
\<close>

theorem bincount_counts:
  assumes nonempty: "labels \<noteq> []"
    and range: "\<forall>l\<in>set labels. 0 \<le> l \<and> l < 2147483647"
    and entries: "length labels < 2 ^ 31"
  shows "(\<exists>counts. bincount labels = Inr counts \<and>
            length counts = nat (Max (set labels) + 1) \<and>
            (\<forall>i<length counts. counts ! i = int (count_list labels (int i))) \<and>
            sum_list counts = int (length labels)) \<and>
         bincount [] = Inl EmptyRange"
proof
  let ?m = "Max (set labels)"
  let ?n = "nat (?m + 1)"
  from nonempty have "?m \<in> set labels"
    by (intro Max_in) simp_all
  with range have m: "0 \<le> ?m" and top: "?m < 2147483647"
    by simp_all
  then have sum: "wrap_int (?m + 1) = ?m + 1"
    by (intro wrap_int_id) simp_all
  have bound: "\<forall>l\<in>set labels. 0 \<le> l \<and> l < int (length (replicate ?n (0::int)))"
    using range m by (auto simp: less_Suc_eq_le intro: Max_ge)
  from entries have "int (length labels) < 2 ^ 31"
    by (metis of_nat_less_iff of_nat_numeral of_nat_power)
  then have room: "\<forall>i<length (replicate ?n (0::int)).
      0 \<le> replicate ?n (0::int) ! i \<and> replicate ?n (0::int) ! i + int (length labels) < 2 ^ 31"
    by simp
  from count_labels_inv [OF bound room] obtain cs where
    cs: "count_labels (replicate ?n 0) labels = Inr cs" "length cs = ?n"
        "\<forall>i<?n. cs ! i = int (count_list labels (int i))"
    by auto
  have run: "bincount labels = Inr cs"
    using m cs(1) by (simp add: bincount_def max_element_Max [OF nonempty] Let_def sum)
  have "sum_list cs = (\<Sum>i\<leftarrow>[0..<?n]. cs ! i)"
    using cs(2) by (metis map_nth)
  also have "\<dots> = (\<Sum>i\<leftarrow>[0..<?n]. int (count_list labels (int i)))"
    using cs(3) by (intro arg_cong [where f = sum_list] map_cong) auto
  also have "\<dots> = int (length labels)"
    using bound by (intro sum_list_count_list_upt) simp
  finally have "sum_list cs = int (length labels)" .
  with run cs(2,3)
  show "\<exists>counts. bincount labels = Inr counts \<and>
            length counts = nat (Max (set labels) + 1) \<and>
            (\<forall>i<length counts. counts ! i = int (count_list labels (int i))) \<and>
            sum_list counts = int (length labels)"
    by auto
next
  show "bincount [] = Inl EmptyRange"
    by (simp add: bincount_def)
qed

theorem bincount_counts_witness:
  "[0, 2, 2, 1, 2 :: int] \<noteq> [] \<and>
   bincount [0, 2, 2, 1, 2] = Inr [1, 1, 3] \<and>
   length [1, 1, 3 :: int] = nat (Max (set [0, 2, 2, 1, 2 :: int]) + 1) \<and>
   sum_list [1, 1, 3 :: int] = int (length [0, 2, 2, 1, 2 :: int])"
proof -
  have run: "bincount [0, 2, 2, 1, 2] = Inr [1, 1, 3]"
    by code_simp
  have "[0, 2, 2, 1, 2 :: int] \<noteq> []"
    and "\<forall>l\<in>set [0, 2, 2, 1, 2 :: int]. 0 \<le> l \<and> l < 2147483647"
    and "length [0, 2, 2, 1, 2 :: int] < 2 ^ 31"
    by simp_all
  from bincount_counts [OF this] run show ?thesis
    by simp
qed

text \<open>
  The one-element vector whose label is the largest \<open>int\<close> is not empty and its label is
  not negative, yet no vector of counts is returned: \<open>max + 1\<close> wraps around to the
  smallest \<open>int\<close>, and a vector of that size cannot be created.
\<close>

theorem bincount_largest_int_counterexample:
  "[2147483647 :: int] \<noteq> [] \<and> (0 :: int) \<le> 2147483647 \<and>
   bincount [2147483647] = Inl BadSize"
  by (simp add: bincount_def wrap_int_def)

subsection \<open>Properties of the threshold scan\<close>

lemma scan_cols_hits:
  "0 \<le> row \<Longrightarrow> row < rows res \<Longrightarrow> 0 \<le> col \<Longrightarrow>
   scan_cols thr res row col loc = Inr (loc @ row_hits thr res row col)"
proof (induction thr res row col loc rule: scan_cols.induct)
  case (1 thr res row col loc)
  show ?case
  proof (cases "col < cols res")
    case True
    with "1.prems" have get: "mat_at res row col = Inr (elem res row col)"
      by (simp add: mat_at_def)
    from True have unfold: "[col..cols res - 1] = col # [col + 1..cols res - 1]"
      by (simp add: upto_rec1)
    from "1.prems" have next_ok: "0 \<le> col + 1" by simp
    show ?thesis
      using "1.IH" [OF True get "1.prems"(1,2) next_ok] True get
      by (subst scan_cols.simps) (simp add: row_hits_def unfold)
  next
    case False
    then show ?thesis
      by (subst scan_cols.simps) (simp add: row_hits_def)
  qed
qed

lemma scan_rows_hits:
  "0 \<le> row \<Longrightarrow>
   scan_rows thr res row loc =
     Inr (loc @ concat (map (\<lambda>r. row_hits thr res r 0) [row..rows res - 1]))"
proof (induction thr res row loc rule: scan_rows.induct)
  case (1 thr res row loc)
  show ?case
  proof (cases "row < rows res")
    case True
    from "1.prems" True
    have cols: "scan_cols thr res row 0 loc = Inr (loc @ row_hits thr res row 0)"
      by (simp add: scan_cols_hits)
    from True have unfold: "[row..rows res - 1] = row # [row + 1..rows res - 1]"
      by (simp add: upto_rec1)
    from "1.prems" have next_ok: "0 \<le> row + 1" by simp
    show ?thesis
      using "1.IH" [OF True cols next_ok] True cols
      by (subst scan_rows.simps) (simp add: unfold)
  next
    case False
    then show ?thesis
      by (subst scan_rows.simps) simp
  qed
qed

lemma in_row_hits:
  "\<lparr>px = col, py = row\<rparr> \<in> set (row_hits thr res r 0) \<longleftrightarrow>
     row = r \<and> 0 \<le> col \<and> col < cols res \<and> elem res row col \<ge> thr"
  by (auto simp: row_hits_def)

lemma scan_rows_nonneg:
  assumes "scan_rows thr res 0 [] = Inr loc" and "pt \<in> set loc"
  shows "0 \<le> px pt \<and> 0 \<le> py pt"
  using assms by (auto simp: scan_rows_hits row_hits_def)

text \<open>
  Claim C4. The scan returns a list of places, and the place of a cell of the surface is
  in it exactly when the score of the cell is greater than or equal to the threshold; a cell
  whose score equals the threshold is in it.
\<close>

theorem scan_threshold:
  "\<exists>loc. scan_rows thr res 0 [] = Inr loc \<and>
     (\<forall>row col. \<lparr>px = col, py = row\<rparr> \<in> set loc \<longleftrightarrow>
        (0 \<le> row \<and> row < rows res \<and> 0 \<le> col \<and> col < cols res \<and> elem res row col \<ge> thr)) \<and>
     (\<forall>row col. 0 \<le> row \<and> row < rows res \<and> 0 \<le> col \<and> col < cols res \<and> elem res row col = thr
        \<longrightarrow> \<lparr>px = col, py = row\<rparr> \<in> set loc)"
proof -
  let ?loc = "concat (map (\<lambda>r. row_hits thr res r 0) [0..rows res - 1])"
  have run: "scan_rows thr res 0 [] = Inr ?loc"
    by (simp add: scan_rows_hits)
  have mem: "\<lparr>px = col, py = row\<rparr> \<in> set ?loc \<longleftrightarrow>
        (0 \<le> row \<and> row < rows res \<and> 0 \<le> col \<and> col < cols res \<and> elem res row col \<ge> thr)"
    for row col
    by (auto simp: in_row_hits)
  from run mem show ?thesis
    by auto
qed

theorem scan_threshold_witness:
  "scan_rows (99 / 100) \<lparr>rows = 1, cols = 3, elem = (\<lambda>i j. [1 / 2, 99 / 100, 1] ! nat j)\<rparr> 0 []
     = Inr [\<lparr>px = 1, py = 0\<rparr>, \<lparr>px = 2, py = 0\<rparr>] \<and>
   elem \<lparr>rows = 1, cols = 3, elem = (\<lambda>i j. [1 / 2, 99 / 100, 1 :: real] ! nat j)\<rparr> 0 1 = 99 / 100 \<and>
   \<lparr>px = 1, py = 0\<rparr> \<in> set [\<lparr>px = 1, py = 0\<rparr>, \<lparr>px = 2, py = 0\<rparr>]"
proof -
  let ?res = "\<lparr>rows = 1, cols = 3, elem = (\<lambda>i j. [1 / 2, 99 / 100, 1 :: real] ! nat j)\<rparr>"
  have run: "scan_rows (99 / 100) ?res 0 [] = Inr [\<lparr>px = 1, py = 0\<rparr>, \<lparr>px = 2, py = 0\<rparr>]"
    by code_simp
  have cell: "elem ?res 0 1 = 99 / 100"
    by simp
  from scan_threshold [of "99 / 100" ?res] run cell
  have "\<lparr>px = 1, py = 0\<rparr> \<in> set [\<lparr>px = 1, py = 0\<rparr>, \<lparr>px = 2, py = 0 :: int\<rparr>]"
    by simp
  with run cell show ?thesis
    by simp
qed

subsection \<open>Properties of the marking loop\<close>

lemma unique_of_draw: "unique_of ver (rect_tl (draw pt win)) = unique_of ver pt"
  by (simp add: unique_of_def draw_def)

lemma chained_snoc:
  assumes "chained ver temp ms" and "7 < \<bar>unique_of ver pt - temp\<bar>"
  shows "chained ver (unique_of ver pt) (ms @ [draw pt win])"
  using assms
  by (cases "ms = []")
     (simp_all add: chained_def successively_append_iff unique_of_draw last_map apart_def)

lemma mark_loop_chained:
  "chained ver temp ms \<Longrightarrow> mark_loop ver win loc temp ms = (t, ms') \<Longrightarrow> chained ver t ms'"
proof (induction loc arbitrary: temp ms)
  case Nil
  then show ?case by simp
next
  case (Cons pt loc)
  show ?case
  proof (cases "7 < \<bar>unique_of ver pt - temp\<bar>")
    case True
    with Cons.prems(2) have "mark_loop ver win loc (unique_of ver pt) (ms @ [draw pt win]) = (t, ms')"
      by (simp add: Let_def)
    with chained_snoc [OF Cons.prems(1) True] show ?thesis
      by (rule Cons.IH)
  next
    case False
    with Cons.prems(2) have "mark_loop ver win loc temp ms = (t, ms')"
      by (simp add: Let_def)
    with Cons.prems(1) show ?thesis
      by (rule Cons.IH)
  qed
qed

lemma mark_loop_started:
  "started ver temp ms \<Longrightarrow> \<forall>pt\<in>set loc. 0 \<le> unique_of ver pt \<Longrightarrow>
   mark_loop ver win loc temp ms = (t, ms') \<Longrightarrow> started ver t ms'"
proof (induction loc arbitrary: temp ms)
  case Nil
  then show ?case by simp
next
  case (Cons pt loc)
  from Cons.prems(2) have pt: "0 \<le> unique_of ver pt" and rest: "\<forall>p\<in>set loc. 0 \<le> unique_of ver p"
    by simp_all
  show ?case
  proof (cases "7 < \<bar>unique_of ver pt - temp\<bar>")
    case True
    with Cons.prems(3) have run: "mark_loop ver win loc (unique_of ver pt) (ms @ [draw pt win]) = (t, ms')"
      by (simp add: Let_def)
    from Cons.prems(1) True pt have "started ver (unique_of ver pt) (ms @ [draw pt win])"
      by (cases "ms = []") (simp_all add: started_def unique_of_draw)
    from Cons.IH [OF this rest run] show ?thesis .
  next
    case False
    with Cons.prems(3) have "mark_loop ver win loc temp ms = (t, ms')"
      by (simp add: Let_def)
    from Cons.IH [OF Cons.prems(1) rest this] show ?thesis .
  qed
qed

lemma mark_loop_skip:
  "\<forall>pt\<in>set pre. 0 \<le> unique_of ver pt \<and> unique_of ver pt \<le> 7 \<Longrightarrow>
   mark_loop ver win (pre @ rest) 0 [] = mark_loop ver win rest 0 []"
  by (induction pre) (simp_all add: Let_def)

lemma set_traversal: "set (traversal cfg loc) = set loc"
  by (simp add: traversal_def)

lemma mark_loop_length:
  "mark_loop ver win loc temp ms = (t, ms') \<Longrightarrow> length ms \<le> length ms'"
proof (induction loc arbitrary: temp ms)
  case Nil
  then show ?case by simp
next
  case (Cons pt loc)
  show ?case
  proof (cases "7 < \<bar>unique_of ver pt - temp\<bar>")
    case True
    with Cons.prems have "mark_loop ver win loc (unique_of ver pt) (ms @ [draw pt win]) = (t, ms')"
      by (simp add: Let_def)
    from Cons.IH [OF this] show ?thesis by simp
  next
    case False
    with Cons.prems have "mark_loop ver win loc temp ms = (t, ms')"
      by (simp add: Let_def)
    from Cons.IH [OF this] show ?thesis .
  qed
qed

lemma mark_loop_none:
  "mark_loop ver win loc temp ms = (t, []) \<Longrightarrow> t = temp"
proof (induction loc arbitrary: temp ms)
  case Nil
  then show ?case by simp
next
  case (Cons pt loc)
  show ?case
  proof (cases "7 < \<bar>unique_of ver pt - temp\<bar>")
    case True
    with Cons.prems have "mark_loop ver win loc (unique_of ver pt) (ms @ [draw pt win]) = (t, [])"
      by (simp add: Let_def)
    from mark_loop_length [OF this] show ?thesis by simp
  next
    case False
    with Cons.prems have "mark_loop ver win loc temp ms = (t, [])"
      by (simp add: Let_def)
    from Cons.IH [OF this] show ?thesis .
  qed
qed

lemma no_marks_not_found:
  assumes "fst (mark_palettes cfg win loc) = []"
  shows "snd (mark_palettes cfg win loc)"
proof -
  obtain t ms where run: "mark_loop (vertical cfg) win (traversal cfg loc) 0 [] = (t, ms)"
    by (cases "mark_loop (vertical cfg) win (traversal cfg loc) 0 []")
  with assms have "ms = []"
    by (simp add: mark_palettes_def)
  with run have "t = 0"
    by (simp add: mark_loop_none)
  with run show ?thesis
    by (simp add: mark_palettes_def)
qed

text \<open>
  Claim C1, as amended. The loop compares a place with the last mark only. Of the marks
  drawn for one picture, any two drawn one right after the other differ by more than 7
  in the coordinate compared (\<open>x\<close> when \<open>vertical\<close>, else \<open>y\<close>).
\<close>

theorem marks_consecutive_apart:
  assumes "Suc i < length (fst (mark_palettes cfg win loc))"
  shows "7 < \<bar>unique_of (vertical cfg) (rect_tl (fst (mark_palettes cfg win loc) ! Suc i))
              - unique_of (vertical cfg) (rect_tl (fst (mark_palettes cfg win loc) ! i))\<bar>"
proof -
  obtain t ms where run: "mark_loop (vertical cfg) win (traversal cfg loc) 0 [] = (t, ms)"
    by (cases "mark_loop (vertical cfg) win (traversal cfg loc) 0 []")
  then have ms: "fst (mark_palettes cfg win loc) = ms"
    by (simp add: mark_palettes_def)
  have "chained (vertical cfg) 0 []"
    by (simp add: chained_def)
  from mark_loop_chained [OF this run]
  have "successively apart (map (\<lambda>m. unique_of (vertical cfg) (rect_tl m)) ms)"
    by (simp add: chained_def)
  moreover from assms ms have "Suc i < length (map (\<lambda>m. unique_of (vertical cfg) (rect_tl m)) ms)"
    by simp
  ultimately have "apart (map (\<lambda>m. unique_of (vertical cfg) (rect_tl m)) ms ! i)
                         (map (\<lambda>m. unique_of (vertical cfg) (rect_tl m)) ms ! Suc i)"
    by (rule successively_nth)
  with assms ms show ?thesis
    by (simp add: apart_def)
qed

theorem marks_consecutive_apart_witness:
  "Suc 0 < length (fst (mark_palettes init_values \<lparr>px = 128, py = 695\<rparr>
       [\<lparr>px = 10, py = 0\<rparr>, \<lparr>px = 20, py = 0\<rparr>, \<lparr>px = 10, py = 1\<rparr>])) \<and>
   7 < \<bar>unique_of (vertical init_values)
          (rect_tl (fst (mark_palettes init_values \<lparr>px = 128, py = 695\<rparr>
             [\<lparr>px = 10, py = 0\<rparr>, \<lparr>px = 20, py = 0\<rparr>, \<lparr>px = 10, py = 1\<rparr>]) ! Suc 0))
        - unique_of (vertical init_values)
          (rect_tl (fst (mark_palettes init_values \<lparr>px = 128, py = 695\<rparr>
             [\<lparr>px = 10, py = 0\<rparr>, \<lparr>px = 20, py = 0\<rparr>, \<lparr>px = 10, py = 1\<rparr>]) ! 0))\<bar>"
proof -
  have len: "Suc 0 < length (fst (mark_palettes init_values \<lparr>px = 128, py = 695\<rparr>
       [\<lparr>px = 10, py = 0\<rparr>, \<lparr>px = 20, py = 0\<rparr>, \<lparr>px = 10, py = 1\<rparr>]))"
    by (simp add: mark_palettes_def traversal_def init_values_def unique_of_def)
  from len marks_consecutive_apart [OF len] show ?thesis
    by (rule conjI)
qed

text \<open>
  Marks that are not neighbours can coincide. The three places below are, in scan order,
  the cells of a surface of two rows that reach the threshold; with the default settings
  they are walked in reverse, all three are marked, and the first and the third mark
  have the same \<open>x\<close>.
\<close>

lemma candidates_of_surface:
  "scan_rows (threshold init_values)
     \<lparr>rows = 2, cols = 21,
      elem = (\<lambda>i j. if (i = 0 \<and> (j = 10 \<or> j = 20)) \<or> (i = 1 \<and> j = 10) then 1 else 0)\<rparr> 0 []
   = Inr [\<lparr>px = 10, py = 0\<rparr>, \<lparr>px = 20, py = 0\<rparr>, \<lparr>px = 10, py = 1\<rparr>]"
  by code_simp

theorem marks_pairwise_counterexample:
  "length (fst (mark_palettes init_values \<lparr>px = 128, py = 695\<rparr>
       [\<lparr>px = 10, py = 0\<rparr>, \<lparr>px = 20, py = 0\<rparr>, \<lparr>px = 10, py = 1\<rparr>])) = 3 \<and>
   \<not> 7 < \<bar>unique_of (vertical init_values)
          (rect_tl (fst (mark_palettes init_values \<lparr>px = 128, py = 695\<rparr>
             [\<lparr>px = 10, py = 0\<rparr>, \<lparr>px = 20, py = 0\<rparr>, \<lparr>px = 10, py = 1\<rparr>]) ! 2))
        - unique_of (vertical init_values)
          (rect_tl (fst (mark_palettes init_values \<lparr>px = 128, py = 695\<rparr>
             [\<lparr>px = 10, py = 0\<rparr>, \<lparr>px = 20, py = 0\<rparr>, \<lparr>px = 10, py = 1\<rparr>]) ! 0))\<bar>"
  by (simp add: mark_palettes_def traversal_def init_values_def unique_of_def draw_def)

text \<open>
  Claim C2. When no mark was drawn, \<open>Palette not found!\<close> is printed
  (\<open>no_marks_not_found\<close>). The converse fails: the message is also printed after marks
  were drawn, when the last of them has the coordinate 0. Here two marks are drawn and the
  message is printed.
\<close>

theorem not_found_despite_marks:
  "mark_palettes init_values \<lparr>px = 128, py = 695\<rparr> [\<lparr>px = 0, py = 0\<rparr>, \<lparr>px = 10, py = 0\<rparr>]
   = ([draw \<lparr>px = 10, py = 0\<rparr> \<lparr>px = 128, py = 695\<rparr>,
       draw \<lparr>px = 0, py = 0\<rparr> \<lparr>px = 128, py = 695\<rparr>], True)"
  by (simp add: mark_palettes_def traversal_def init_values_def unique_of_def)

text \<open>
  Claim C8. \<open>temp\<close> starts at 0 and the places are cells of the surface, so their
  coordinates are not negative. Hence the first mark drawn has a coordinate greater than 7;
  and the places at the head of the walk whose coordinate is at most 7 are all passed over,
  leaving the loop as it started.
\<close>

theorem first_mark_beyond_seven:
  assumes scan: "scan_rows thr res 0 [] = Inr loc"
  shows "(fst (mark_palettes cfg win loc) \<noteq> [] \<longrightarrow>
            7 < unique_of (vertical cfg) (rect_tl (hd (fst (mark_palettes cfg win loc))))) \<and>
         (\<forall>pre rest. traversal cfg loc = pre @ rest \<and>
                      (\<forall>pt\<in>set pre. unique_of (vertical cfg) pt \<le> 7) \<longrightarrow>
            mark_loop (vertical cfg) win (pre @ rest) 0 [] = mark_loop (vertical cfg) win rest 0 [])"
proof (intro conjI allI impI)
  have nonneg: "\<forall>pt\<in>set (traversal cfg loc). 0 \<le> unique_of (vertical cfg) pt"
    using scan_rows_nonneg [OF scan] by (simp add: set_traversal unique_of_def)
  {
    assume some: "fst (mark_palettes cfg win loc) \<noteq> []"
    obtain t ms where run: "mark_loop (vertical cfg) win (traversal cfg loc) 0 [] = (t, ms)"
      by (cases "mark_loop (vertical cfg) win (traversal cfg loc) 0 []")
    have "started (vertical cfg) 0 []"
      by (simp add: started_def)
    from mark_loop_started [OF this nonneg run] have "started (vertical cfg) t ms" .
    with some run
    show "7 < unique_of (vertical cfg) (rect_tl (hd (fst (mark_palettes cfg win loc))))"
      by (simp add: mark_palettes_def started_def)
  }
  {
    fix pre rest
    assume split: "traversal cfg loc = pre @ rest \<and>
                   (\<forall>pt\<in>set pre. unique_of (vertical cfg) pt \<le> 7)"
    with nonneg have "\<forall>pt\<in>set pre. 0 \<le> unique_of (vertical cfg) pt \<and> unique_of (vertical cfg) pt \<le> 7"
      by simp
    then show "mark_loop (vertical cfg) win (pre @ rest) 0 [] = mark_loop (vertical cfg) win rest 0 []"
      by (rule mark_loop_skip)
  }
qed

theorem first_mark_beyond_seven_witness:
  "scan_rows (99 / 100) \<lparr>rows = 1, cols = 13, elem = (\<lambda>i j. if j = 3 \<or> j = 12 then 1 else 0)\<rparr> 0 []
     = Inr [\<lparr>px = 3, py = 0\<rparr>, \<lparr>px = 12, py = 0\<rparr>] \<and>
   fst (mark_palettes (init_values\<lparr>reverse := False\<rparr>) \<lparr>px = 128, py = 695\<rparr>
          [\<lparr>px = 3, py = 0\<rparr>, \<lparr>px = 12, py = 0\<rparr>])
     = [draw \<lparr>px = 12, py = 0\<rparr> \<lparr>px = 128, py = 695\<rparr>] \<and>
   7 < unique_of (vertical (init_values\<lparr>reverse := False\<rparr>))
         (rect_tl (hd (fst (mark_palettes (init_values\<lparr>reverse := False\<rparr>) \<lparr>px = 128, py = 695\<rparr>
          [\<lparr>px = 3, py = 0\<rparr>, \<lparr>px = 12, py = 0\<rparr>])))) \<and>
   mark_loop (vertical (init_values\<lparr>reverse := False\<rparr>)) \<lparr>px = 128, py = 695\<rparr>
       ([\<lparr>px = 3, py = 0\<rparr>] @ [\<lparr>px = 12, py = 0\<rparr>]) 0 []
     = mark_loop (vertical (init_values\<lparr>reverse := False\<rparr>)) \<lparr>px = 128, py = 695\<rparr>
       [\<lparr>px = 12, py = 0\<rparr>] 0 []"
proof -
  let ?cfg = "init_values\<lparr>reverse := False\<rparr>"
  let ?win = "\<lparr>px = 128, py = 695\<rparr>"
  let ?loc = "[\<lparr>px = 3, py = 0\<rparr>, \<lparr>px = 12, py = 0\<rparr>]"
  have scan: "scan_rows (99 / 100)
      \<lparr>rows = 1, cols = 13, elem = (\<lambda>i j. if j = 3 \<or> j = 12 then 1 else 0)\<rparr> 0 [] = Inr ?loc"
    by code_simp
  have marks: "fst (mark_palettes ?cfg ?win ?loc) = [draw \<lparr>px = 12, py = 0\<rparr> ?win]"
    by (simp add: mark_palettes_def traversal_def init_values_def unique_of_def)
  have split: "traversal ?cfg ?loc = [\<lparr>px = 3, py = 0\<rparr>] @ [\<lparr>px = 12, py = 0\<rparr>] \<and>
               (\<forall>pt\<in>set [\<lparr>px = 3, py = 0\<rparr>]. unique_of (vertical ?cfg) pt \<le> 7)"
    by (simp add: traversal_def init_values_def unique_of_def)
  note inst = first_mark_beyond_seven [OF scan, of ?cfg ?win]
  from inst marks have first: "7 < unique_of (vertical ?cfg) (rect_tl (hd (fst (mark_palettes ?cfg ?win ?loc))))"
    by simp
  from inst split have skip: "mark_loop (vertical ?cfg) ?win ([\<lparr>px = 3, py = 0\<rparr>] @ [\<lparr>px = 12, py = 0\<rparr>]) 0 []
     = mark_loop (vertical ?cfg) ?win [\<lparr>px = 12, py = 0\<rparr>] 0 []"
    by blast
  from scan marks first skip show ?thesis
    by (intro conjI)
qed

subsection \<open>Properties of the loop body\<close>

lemma scan_rows_returns: "\<exists>loc. scan_rows thr res 0 [] = Inr loc"
  by (simp add: scan_rows_hits)

lemma process_image_strip:
  assumes "kmeans pic (resize cfg) (n_clusters cfg) = (centers0, labels)"
    and "bincount labels = Inr sizes"
    and "create_palette cfg (vertical cfg) (reverse cfg) (cv_sort centers0) = Inr model"
  shows "\<exists>out. process_image cfg win pic = Inr (cfg, out) \<and> strip out = model"
proof -
  obtain loc where scan: "scan_rows (threshold cfg) (matchTemplate pic model) 0 [] = Inr loc"
    using scan_rows_returns by blast
  obtain ms nf where "mark_palettes cfg win loc = (ms, nf)"
    by (cases "mark_palettes cfg win loc")
  with assms scan show ?thesis
    by (simp add: process_image_def)
qed

text \<open>
  Claim C3. In the loop body the centres that \<open>kmeans\<close> returns are sorted before the
  strip is made of them. Each of the three columns of the sorted centres is ascending, and
  their last row holds the maximum of each column. The strip of the picture is the
  concatenation of one cell for each of the rows \<open>0\<close> to \<open>n_clusters - 2\<close> of the sorted
  centres, in this order or, with \<open>reverse\<close>, in the opposite one: \<open>n_clusters - 1\<close> cells,
  the last row, and only it, being left out. (The sizes of a cell and of the strip are taken
  to fit an \<open>int\<close>, as the sizes of a matrix do.)
\<close>

theorem sorted_palette:
  assumes "kmeans pic (resize cfg) (n_clusters cfg) = (centers0, labels)"
    and "bincount labels = Inr sizes"
    and "rows centers0 = n_clusters cfg" and "2 \<le> n_clusters cfg" and "n_clusters cfg < 2 ^ 31"
    and "cols centers0 = 3" and "0 \<le> color_w cfg" and "0 \<le> color_h cfg"
    and "color_w cfg < 2 ^ 31" and "color_h cfg * (n_clusters cfg - 1) < 2 ^ 31"
  shows "(\<forall>j\<in>{0, 1, 2}. sorted (column (cv_sort centers0) j)) \<and>
         (\<forall>j\<in>{0, 1, 2}. elem (cv_sort centers0) (n_clusters cfg - 1) j
                            = Max (set (column centers0 j))) \<and>
         (\<exists>out palette.
            process_image cfg win pic = Inr (cfg, out) \<and>
            palette = map (\<lambda>k. cluster_mat (if vertical cfg then color_h cfg else color_w cfg)
                                            (if vertical cfg then color_w cfg else color_h cfg)
                                            (cv_sort centers0) (int k))
                          [0..<nat (n_clusters cfg - 1)] \<and>
            int (length palette) = n_clusters cfg - 1 \<and>
            Inr (strip out) =
              (if vertical cfg
               then vconcat (if reverse cfg then rev palette else palette)
               else hconcat (if reverse cfg then rev palette else palette)))"
proof (intro conjI ballI)
  fix j :: int
  show "sorted (column (cv_sort centers0) j)"
    by (simp add: column_cv_sort)
  have len: "length (column centers0 j) = nat (rows centers0)"
    by (simp add: column_def)
  with assms(3,4) have "length (sort (column centers0 j)) \<noteq> 0"
    by simp
  then have "sort (column centers0 j) \<noteq> []"
    by (metis list.size(3))
  with sorted_last_Max [of "sort (column centers0 j)"]
  have "sort (column centers0 j) ! (nat (rows centers0) - 1) = Max (set (column centers0 j))"
    by (simp add: len)
  moreover have "nat (rows centers0 - 1) = nat (rows centers0) - 1"
    by simp
  ultimately show "elem (cv_sort centers0) (n_clusters cfg - 1) j = Max (set (column centers0 j))"
    using assms(3) by (simp add: cv_sort_def)
next
  let ?x = "if vertical cfg then color_h cfg else color_w cfg"
  let ?y = "if vertical cfg then color_w cfg else color_h cfg"
  let ?palette = "map (\<lambda>k. cluster_mat ?x ?y (cv_sort centers0) (int k))
                      [0..<nat (n_clusters cfg - 1)]"
  let ?ordered = "if reverse cfg then rev ?palette else ?palette"
  from assms(3-8) have shape: "1 \<le> rows (cv_sort centers0)" "rows (cv_sort centers0) < 2 ^ 31"
      "3 \<le> cols (cv_sort centers0)" and size: "0 \<le> ?x" "0 \<le> ?y"
    by (simp_all add: cv_sort_def)
  from palette_loop_cells [OF shape size, of 0 "[]"] assms(3)
  have loop: "palette_loop ?x ?y (cv_sort centers0) 0 [] = Inr ?palette"
    by (simp add: cv_sort_def)
  have nonempty: "?ordered \<noteq> []"
    using assms(4) by auto
  have cells: "\<forall>m\<in>set ?ordered. rows m = ?x \<and> cols m = ?y"
    by (auto simp: cluster_mat_def)
  have made: "create_palette cfg (vertical cfg) (reverse cfg) (cv_sort centers0)
                = (if vertical cfg then vconcat ?ordered else hconcat ?ordered)"
    using loop by (simp add: create_palette_def Let_def)
  obtain model where model: "(if vertical cfg then vconcat ?ordered else hconcat ?ordered) = Inr model"
    using vconcat_cells [OF nonempty cells] hconcat_cells [OF nonempty cells]
    by (cases "vertical cfg") auto
  from process_image_strip [OF assms(1,2), of model win] made model
  obtain out where out: "process_image cfg win pic = Inr (cfg, out)" "strip out = model"
    by auto
  have count: "int (length ?palette) = n_clusters cfg - 1"
    using assms(4) by simp
  from out model count
  have "process_image cfg win pic = Inr (cfg, out) \<and> ?palette = ?palette \<and>
        int (length ?palette) = n_clusters cfg - 1 \<and>
        Inr (strip out) = (if vertical cfg then vconcat ?ordered else hconcat ?ordered)"
    by simp
  then show "\<exists>out palette.
            process_image cfg win pic = Inr (cfg, out) \<and>
            palette = ?palette \<and>
            int (length palette) = n_clusters cfg - 1 \<and>
            Inr (strip out) =
              (if vertical cfg
               then vconcat (if reverse cfg then rev palette else palette)
               else hconcat (if reverse cfg then rev palette else palette))"
    by blast
qed

theorem sorted_palette_witness:
  "kmeans \<lparr>readable = True,
           kmeans = (\<lambda>r k. (\<lparr>rows = 3, cols = 3, elem = (\<lambda>i j. [[9, 1, 5], [2, 8, 4], [6, 3, 7 :: real]] ! nat i ! nat j)\<rparr>, [0, 1, 2, 1])),
           matchTemplate = (\<lambda>m. \<lparr>rows = 1, cols = 1, elem = (\<lambda>i j. 0)\<rparr>)\<rparr>
      (resize (init_values\<lparr>n_clusters := 3, colors := 2\<rparr>)) (n_clusters (init_values\<lparr>n_clusters := 3, colors := 2\<rparr>))
     = (\<lparr>rows = 3, cols = 3, elem = (\<lambda>i j. [[9, 1, 5], [2, 8, 4], [6, 3, 7 :: real]] ! nat i ! nat j)\<rparr>, [0, 1, 2, 1]) \<and>
   bincount [0, 1, 2, 1] = Inr [1, 2, 1] \<and>
   column (cv_sort \<lparr>rows = 3, cols = 3, elem = (\<lambda>i j. [[9, 1, 5], [2, 8, 4], [6, 3, 7 :: real]] ! nat i ! nat j)\<rparr>) 0
     = [2, 6, 9] \<and>
   sorted (column (cv_sort \<lparr>rows = 3, cols = 3, elem = (\<lambda>i j. [[9, 1, 5], [2, 8, 4], [6, 3, 7 :: real]] ! nat i ! nat j)\<rparr>) 0) \<and>
   (\<exists>out. process_image (init_values\<lparr>n_clusters := 3, colors := 2\<rparr>) \<lparr>px = 128, py = 278\<rparr>
              \<lparr>readable = True,
               kmeans = (\<lambda>r k. (\<lparr>rows = 3, cols = 3, elem = (\<lambda>i j. [[9, 1, 5], [2, 8, 4], [6, 3, 7 :: real]] ! nat i ! nat j)\<rparr>, [0, 1, 2, 1])),
               matchTemplate = (\<lambda>m. \<lparr>rows = 1, cols = 1, elem = (\<lambda>i j. 0)\<rparr>)\<rparr>
              = Inr (init_values\<lparr>n_clusters := 3, colors := 2\<rparr>, out) \<and>
          Inr (strip out) =
            vconcat [cluster_mat 139 128 (cv_sort \<lparr>rows = 3, cols = 3, elem = (\<lambda>i j. [[9, 1, 5], [2, 8, 4], [6, 3, 7 :: real]] ! nat i ! nat j)\<rparr>) 1,
                     cluster_mat 139 128 (cv_sort \<lparr>rows = 3, cols = 3, elem = (\<lambda>i j. [[9, 1, 5], [2, 8, 4], [6, 3, 7 :: real]] ! nat i ! nat j)\<rparr>) 0])"
proof -
  let ?c = "\<lparr>rows = 3, cols = 3, elem = (\<lambda>i j. [[9, 1, 5], [2, 8, 4], [6, 3, 7 :: real]] ! nat i ! nat j)\<rparr>"
  let ?pic = "\<lparr>readable = True, kmeans = (\<lambda>r k. (?c, [0, 1, 2, 1 :: int])),
               matchTemplate = (\<lambda>m :: image. \<lparr>rows = 1, cols = 1, elem = (\<lambda>i j. 0 :: real)\<rparr>)\<rparr>"
  let ?cfg = "init_values\<lparr>n_clusters := 3, colors := 2\<rparr>"
  have km: "kmeans ?pic (resize ?cfg) (n_clusters ?cfg) = (?c, [0, 1, 2, 1])"
    by simp
  have sizes: "bincount [0, 1, 2, 1] = Inr [1, 2, 1]"
    by code_simp
  have shape: "rows ?c = n_clusters ?cfg" "2 \<le> n_clusters ?cfg" "n_clusters ?cfg < 2 ^ 31"
    "cols ?c = 3" "0 \<le> color_w ?cfg" "0 \<le> color_h ?cfg"
    "color_w ?cfg < 2 ^ 31" "color_h ?cfg * (n_clusters ?cfg - 1) < 2 ^ 31"
    by (simp_all add: init_values_def)
  have col: "column (cv_sort ?c) 0 = [2, 6, 9]"
    by code_simp
  note inst = sorted_palette [OF km sizes shape, of "\<lparr>px = 128, py = 278\<rparr>"]
  from inst have sorted0: "sorted (column (cv_sort ?c) 0)"
    by simp
  have "[0..<nat (n_clusters ?cfg - 1)] = [0, 1]"
    by (simp add: init_values_def upt_rec)
  with inst have strip: "\<exists>out. process_image ?cfg \<lparr>px = 128, py = 278\<rparr> ?pic = Inr (?cfg, out) \<and>
      Inr (strip out) = vconcat [cluster_mat 139 128 (cv_sort ?c) 1, cluster_mat 139 128 (cv_sort ?c) 0]"
    by (auto simp: init_values_def)
  from km sizes col sorted0 strip show ?thesis
    by (intro conjI)
qed

end
